theory Spec2Isabelle
  imports Complex_Main "HOL-Library.AList"
begin

section \<open>Data model\<close>

text \<open>
  Python floats are modelled as exact rationals; Python dictionaries whose keys are
  enumerated (the per-image maps, the per-class result maps) are association lists in
  insertion order; dictionaries that are only looked up are maps.
  A box is the four coordinates \<open>[x1, y1, x2, y2]\<close>.
\<close>

type_synonym bbox = "rat \<times> rat \<times> rat \<times> rat"

text \<open>An entry of \<open>all_predictions[image_id]\<close>: \<open>{class_name, confidence, bbox}\<close>.\<close>

record prediction =
  class_name :: string
  confidence :: rat
  bbox :: bbox

text \<open>
  An entry of \<open>all_ground_truths[image_id]\<close>: \<open>{class_name, bbox, difficult}\<close>.
  \<open>difficult\<close> is the VOC integer flag; the code tests its truthiness.
\<close>

record ground_truth =
  gt_class_name :: string
  gt_bbox :: bbox
  difficult :: int

section \<open>evaluator.py\<close>

subsection \<open>compute_iou\<close>

definition compute_iou :: "bbox \<Rightarrow> bbox \<Rightarrow> rat" where
  "compute_iou box_a box_b =
     (case box_a of (a0, a1, a2, a3) \<Rightarrow>
      case box_b of (b0, b1, b2, b3) \<Rightarrow>
        let x1 = max a0 b0;
            y1 = max a1 b1;
            x2 = min a2 b2;
            y2 = min a3 b3;
            intersection = max 0 (x2 - x1) * max 0 (y2 - y1)
        in if intersection = 0 then 0
           else
             let area_a = (a2 - a0) * (a3 - a1);
                 area_b = (b2 - b0) * (b3 - b1);
                 union = area_a + area_b - intersection
             in if union > 0 then intersection / union else 0)"

subsection \<open>match_predictions_to_gt\<close>

text \<open>
  The inner loop over \<open>enumerate(ground_truths)\<close>: it skips the indices in
  \<open>matched_gt\<close> and keeps the first ground truth of strictly greatest IoU, starting
  from \<open>best_iou = 0.0\<close>, \<open>best_gt_idx = -1\<close>.
\<close>

definition best_gt_step :: "bbox \<Rightarrow> int set \<Rightarrow> nat \<times> ground_truth \<Rightarrow> rat \<times> int \<Rightarrow> rat \<times> int" where
  "best_gt_step pb matched_gt e best =
     (case e of (gt_idx, gt) \<Rightarrow>
      case best of (best_iou, best_gt_idx) \<Rightarrow>
        if int gt_idx \<in> matched_gt then (best_iou, best_gt_idx)
        else
          let iou = compute_iou pb (gt_bbox gt)
          in if iou > best_iou then (iou, int gt_idx) else (best_iou, best_gt_idx))"

definition best_gt :: "bbox \<Rightarrow> ground_truth list \<Rightarrow> int set \<Rightarrow> rat \<times> int" where
  "best_gt pb ground_truths matched_gt =
     fold (best_gt_step pb matched_gt) (enumerate 0 ground_truths) (0, - 1)"

text \<open>
  The body of the loop over the predictions, on the loop state
  \<open>(matched_gt, tp_flags)\<close>. The \<open>continue\<close> of the difficult branch leaves both
  components as they are.
\<close>

definition match_step :: "rat \<Rightarrow> ground_truth list \<Rightarrow> prediction \<Rightarrow> int set \<times> bool list \<Rightarrow> int set \<times> bool list" where
  "match_step iou_threshold ground_truths pred st =
     (case st of (matched_gt, tp_flags) \<Rightarrow>
      case best_gt (bbox pred) ground_truths matched_gt of (best_iou, best_gt_idx) \<Rightarrow>
        if best_iou \<ge> iou_threshold \<and> best_gt_idx \<ge> 0 then
          let gt = ground_truths ! nat best_gt_idx
          in if difficult gt \<noteq> 0 then (matched_gt, tp_flags)
             else (insert best_gt_idx matched_gt, tp_flags @ [True])
        else (matched_gt, tp_flags @ [False]))"

definition match_loop :: "rat \<Rightarrow> ground_truth list \<Rightarrow> prediction list \<Rightarrow> int set \<times> bool list \<Rightarrow> int set \<times> bool list" where
  "match_loop iou_threshold ground_truths predictions st =
     fold (match_step iou_threshold ground_truths) predictions st"

definition match_predictions_to_gt :: "prediction list \<Rightarrow> ground_truth list \<Rightarrow> rat \<Rightarrow> bool list \<times> nat" where
  "match_predictions_to_gt predictions ground_truths iou_threshold =
     (let n_gt = length (filter (\<lambda>gt. \<not> (difficult gt \<noteq> 0)) ground_truths);
          st = match_loop iou_threshold ground_truths predictions ({}, [])
      in (snd st, n_gt))"

subsection \<open>compute_ap\<close>

text \<open>
  The backward sweep \<open>for i in range(len(precisions) - 2, -1, -1)\<close> as a fold over the
  indices in that order, then the sum over the indices where the recall changes.
\<close>

definition envelope :: "rat list \<Rightarrow> rat list" where
  "envelope precisions =
     fold (\<lambda>i ps. ps[i := max (ps ! i) (ps ! (i + 1))])
       (rev [0..<length precisions - 1]) precisions"

definition compute_ap :: "rat list \<Rightarrow> rat list \<Rightarrow> rat" where
  "compute_ap precisions recalls =
     (let precisions = envelope ([0] @ precisions @ [0]);
          recalls = [0] @ recalls @ [1];
          recall_changes =
            filter (\<lambda>i. recalls ! (i + 1) \<noteq> recalls ! i) [0..<length recalls - 1]
      in sum_list
           (map (\<lambda>i. (recalls ! (i + 1) - recalls ! i) * precisions ! (i + 1))
              recall_changes))"

subsection \<open>evaluate_detections\<close>

text \<open>\<open>str.lower\<close> on ASCII letters; other characters are left as they are.\<close>

definition lower :: "string \<Rightarrow> string" where
  "lower s =
     map (\<lambda>c. let n = (of_char c :: nat)
               in if 65 \<le> n \<and> n \<le> 90 then char_of (n + 32) else c) s"

text \<open>\<open>d.get(k, [])\<close> on a dictionary of lists.\<close>

definition dict_get :: "('k \<times> 'v list) list \<Rightarrow> 'k \<Rightarrow> 'v list" where
  "dict_get d k = (case map_of d k of None \<Rightarrow> [] | Some v \<Rightarrow> v)"

text \<open>
  \<open>xs.sort(key=..., reverse=True)\<close>: Python's sort is stable, also with
  \<open>reverse=True\<close>; so is \<open>sort_key\<close> on the negated key.
\<close>

definition sort_desc :: "('a \<Rightarrow> rat) \<Rightarrow> 'a list \<Rightarrow> 'a list" where
  "sort_desc key xs = sort_key (\<lambda>x. - key x) xs"

text \<open>
  \<open>set(list(all_predictions.keys()) + list(all_ground_truths.keys()))\<close>: the order in
  which CPython iterates a set of strings is not fixed by the language, so the
  enumeration is a parameter \<open>set_order\<close>, from the list of inserted keys to the
  list of the set's elements in iteration order.
\<close>

definition image_ids :: "(string list \<Rightarrow> string list) \<Rightarrow> (string \<times> prediction list) list \<Rightarrow> (string \<times> ground_truth list) list \<Rightarrow> string list" where
  "image_ids set_order all_predictions all_ground_truths =
     set_order (map fst all_predictions @ map fst all_ground_truths)"

definition is_set_order :: "(string list \<Rightarrow> string list) \<Rightarrow> bool" where
  "is_set_order set_order \<longleftrightarrow>
     (\<forall>ks. distinct (set_order ks) \<and> set (set_order ks) = set ks)"

text \<open>The body of the loop over the image ids (lines 145 to 160), on \<open>(class_preds, total_gt)\<close>.\<close>

definition gather_image :: "rat \<Rightarrow> (string \<times> prediction list) list \<Rightarrow> (string \<times> ground_truth list) list \<Rightarrow> string \<Rightarrow> string \<Rightarrow> (rat \<times> bool) list \<times> nat \<Rightarrow> (rat \<times> bool) list \<times> nat" where
  "gather_image iou_thresh all_predictions all_ground_truths cname image_id acc =
     (case acc of (class_preds, total_gt) \<Rightarrow>
        let img_preds =
              sort_desc confidence
                (filter (\<lambda>p. lower (class_name p) = lower cname)
                   (dict_get all_predictions image_id));
            img_gts =
              filter (\<lambda>g. lower (gt_class_name g) = lower cname)
                (dict_get all_ground_truths image_id);
            m = match_predictions_to_gt img_preds img_gts iou_thresh;
            tp_flags = fst m;
            n_gt = snd m
        in (class_preds @
              map (\<lambda>i. (confidence (img_preds ! i), tp_flags ! i)) [0..<length tp_flags],
            total_gt + n_gt))"

definition gather_class :: "(string list \<Rightarrow> string list) \<Rightarrow> rat \<Rightarrow> (string \<times> prediction list) list \<Rightarrow> (string \<times> ground_truth list) list \<Rightarrow> string \<Rightarrow> (rat \<times> bool) list \<times> nat" where
  "gather_class set_order iou_thresh all_predictions all_ground_truths cname =
     fold (gather_image iou_thresh all_predictions all_ground_truths cname)
       (image_ids set_order all_predictions all_ground_truths) ([], 0)"

fun cumsum_from :: "rat \<Rightarrow> rat list \<Rightarrow> rat list" where
  "cumsum_from acc [] = []"
| "cumsum_from acc (x # xs) = (acc + x) # cumsum_from (acc + x) xs"

text \<open>\<open>np.finfo(np.float64).eps\<close>\<close>

definition float_eps :: rat where
  "float_eps = 1 / 2 ^ 52"

record curve_point =
  cp_precision :: rat
  cp_recall :: rat
  cp_confidence :: rat

text \<open>\<open>range(0, n, step)\<close> for a positive step.\<close>

definition range_step :: "nat \<Rightarrow> nat \<Rightarrow> nat list" where
  "range_step n step = filter (\<lambda>i. i mod step = 0) [0..<n]"

text \<open>
  Lines 162 to 201 for one class: the AP and the subsampled curve, \<open>(0.0, [])\<close> when
  the class has no non-difficult ground truth.
\<close>

definition eval_class :: "(string list \<Rightarrow> string list) \<Rightarrow> rat \<Rightarrow> (string \<times> prediction list) list \<Rightarrow> (string \<times> ground_truth list) list \<Rightarrow> string \<Rightarrow> rat \<times> curve_point list" where
  "eval_class set_order iou_thresh all_predictions all_ground_truths cname =
     (let g = gather_class set_order iou_thresh all_predictions all_ground_truths cname;
          total_gt = snd g
      in if total_gt = 0 then (0, [])
         else
           let class_preds = sort_desc fst (fst g);
               tp_cumsum = cumsum_from 0 (map (\<lambda>(conf, is_tp). if is_tp then 1 else 0) class_preds);
               fp_cumsum = cumsum_from 0 (map (\<lambda>(conf, is_tp). if is_tp then 0 else 1) class_preds);
               precisions = map (\<lambda>(tp, fp). tp / max (tp + fp) float_eps) (zip tp_cumsum fp_cumsum);
               recalls = map (\<lambda>tp. tp / of_nat total_gt) tp_cumsum;
               ap = compute_ap precisions recalls;
               n = length precisions;
               step = max 1 (n div 50);
               point = (\<lambda>i. \<lparr>cp_precision = precisions ! i, cp_recall = recalls ! i,
                              cp_confidence = fst (class_preds ! i)\<rparr>);
               curve_points =
                 map point (range_step n step) @ (if n > 0 then [point (n - 1)] else [])
           in (ap, curve_points))"

record threshold_result =
  thr_mAP :: rat
  thr_per_class_ap :: "(string \<times> rat) list"
  thr_pr_curves :: "(string \<times> curve_point list) list"

text \<open>The loop over the class names fills the two dictionaries by assignment.\<close>

definition class_step :: "(string list \<Rightarrow> string list) \<Rightarrow> rat \<Rightarrow> (string \<times> prediction list) list \<Rightarrow> (string \<times> ground_truth list) list \<Rightarrow> string \<Rightarrow> (string \<times> rat) list \<times> (string \<times> curve_point list) list \<Rightarrow> (string \<times> rat) list \<times> (string \<times> curve_point list) list" where
  "class_step set_order iou_thresh all_predictions all_ground_truths cname acc =
     (case acc of (per_class_ap, pr_curves) \<Rightarrow>
        let r = eval_class set_order iou_thresh all_predictions all_ground_truths cname
        in (AList.update cname (fst r) per_class_ap, AList.update cname (snd r) pr_curves))"

definition mean_of :: "rat list \<Rightarrow> rat" where
  "mean_of xs = sum_list xs / of_nat (length xs)"

definition eval_threshold :: "(string list \<Rightarrow> string list) \<Rightarrow> (string \<times> prediction list) list \<Rightarrow> (string \<times> ground_truth list) list \<Rightarrow> string list \<Rightarrow> rat \<Rightarrow> threshold_result" where
  "eval_threshold set_order all_predictions all_ground_truths class_names iou_thresh =
     (let acc = fold (class_step set_order iou_thresh all_predictions all_ground_truths)
                  class_names ([], []);
          per_class_ap = fst acc;
          pr_curves = snd acc;
          valid_aps = filter (\<lambda>ap. ap > 0) (map snd per_class_ap);
          mAP = (if valid_aps \<noteq> [] then mean_of valid_aps else 0)
      in \<lparr>thr_mAP = mAP, thr_per_class_ap = per_class_ap, thr_pr_curves = pr_curves\<rparr>)"

definition results_by_threshold :: "(string list \<Rightarrow> string list) \<Rightarrow> (string \<times> prediction list) list \<Rightarrow> (string \<times> ground_truth list) list \<Rightarrow> string list \<Rightarrow> rat list \<Rightarrow> (rat \<times> threshold_result) list" where
  "results_by_threshold set_order all_predictions all_ground_truths class_names iou_thresholds =
     fold (\<lambda>iou_thresh rbt.
             AList.update iou_thresh
               (eval_threshold set_order all_predictions all_ground_truths class_names iou_thresh)
               rbt)
       iou_thresholds []"

text \<open>
  Lines 230 to 240: the aggregate counts at threshold 0.5, on
  \<open>(total_tp, total_fp, total_gt_all)\<close>. Here the predictions of an image are not
  sorted before matching.
\<close>

definition agg_image :: "(string \<times> prediction list) list \<Rightarrow> (string \<times> ground_truth list) list \<Rightarrow> string \<Rightarrow> string \<Rightarrow> nat \<times> nat \<times> nat \<Rightarrow> nat \<times> nat \<times> nat" where
  "agg_image all_predictions all_ground_truths cname image_id acc =
     (case acc of (total_tp, total_fp, total_gt_all) \<Rightarrow>
        let img_preds =
              filter (\<lambda>p. lower (class_name p) = lower cname)
                (dict_get all_predictions image_id);
            img_gts =
              filter (\<lambda>g. lower (gt_class_name g) = lower cname)
                (dict_get all_ground_truths image_id);
            m = match_predictions_to_gt img_preds img_gts (1 / 2);
            tp_f = fst m;
            n_g = snd m
        in (total_tp + length (filter (\<lambda>f. f) tp_f),
            total_fp + length (filter (\<lambda>f. \<not> f) tp_f),
            total_gt_all + n_g))"

definition agg_counts :: "(string list \<Rightarrow> string list) \<Rightarrow> (string \<times> prediction list) list \<Rightarrow> (string \<times> ground_truth list) list \<Rightarrow> string list \<Rightarrow> nat \<times> nat \<times> nat" where
  "agg_counts set_order all_predictions all_ground_truths class_names =
     fold (\<lambda>cname acc.
             fold (agg_image all_predictions all_ground_truths cname)
               (image_ids set_order all_predictions all_ground_truths) acc)
       class_names (0, 0, 0)"

text \<open>
  \<open>round(x, ndigits)\<close>: to the nearest multiple of \<open>10 ^ -ndigits\<close>, an exact tie
  going to the even neighbour.
\<close>

definition py_round :: "rat \<Rightarrow> nat \<Rightarrow> rat" where
  "py_round x ndigits =
     (let y = x * 10 ^ ndigits;
          f = \<lfloor>y\<rfloor>;
          d = y - of_int f;
          r = (if d < 1 / 2 then f else if d > 1 / 2 then f + 1
               else if even f then f else f + 1)
      in of_int r / 10 ^ ndigits)"

record evaluation =
  mAP_50 :: rat
  mAP_50_95 :: rat
  aggregate_precision :: rat
  aggregate_recall :: rat
  per_class_ap :: "(string \<times> rat) list"
  pr_curves :: "(string \<times> curve_point list) list"
  total_predictions :: nat
  total_ground_truths :: nat
  iou_thresholds_used :: "rat list"

text \<open>
  \<open>iou_thresholds\<close> is \<open>None\<close> when the caller leaves the default. The lookups
  \<open>results_by_threshold.get(0.5, {}).get(key, default)\<close> are the \<open>case\<close>
  expressions.
\<close>

definition evaluate_detections :: "(string list \<Rightarrow> string list) \<Rightarrow> (string \<times> prediction list) list \<Rightarrow> (string \<times> ground_truth list) list \<Rightarrow> string list \<Rightarrow> rat list option \<Rightarrow> evaluation" where
  "evaluate_detections set_order all_predictions all_ground_truths class_names iou_thresholds_opt =
     (let iou_thresholds = (case iou_thresholds_opt of None \<Rightarrow> [1 / 2] | Some ts \<Rightarrow> ts);
          rbt = results_by_threshold set_order all_predictions all_ground_truths
                  class_names iou_thresholds;
          r50 = map_of rbt (1 / 2);
          mAP_50 = (case r50 of None \<Rightarrow> 0 | Some r \<Rightarrow> thr_mAP r);
          agg = agg_counts set_order all_predictions all_ground_truths class_names;
          total_tp = fst agg;
          total_fp = fst (snd agg);
          total_gt_all = snd (snd agg);
          agg_precision = of_nat total_tp / of_nat (max 1 (total_tp + total_fp));
          agg_recall = of_nat total_tp / of_nat (max 1 total_gt_all);
          mAP_50_95 = (if length iou_thresholds > 1 then mean_of (map (\<lambda>(t, r). thr_mAP r) rbt)
                       else mAP_50);
          total_preds = sum_list (map (\<lambda>(k, v). length v) all_predictions);
          total_gts =
            sum_list
              (map (\<lambda>(k, v). length (filter (\<lambda>g. \<not> (difficult g \<noteq> 0)) v)) all_ground_truths)
      in \<lparr>mAP_50 = mAP_50,
          mAP_50_95 = mAP_50_95,
          aggregate_precision = py_round agg_precision 4,
          aggregate_recall = py_round agg_recall 4,
          per_class_ap = (case r50 of None \<Rightarrow> [] | Some r \<Rightarrow> thr_per_class_ap r),
          pr_curves = (case r50 of None \<Rightarrow> [] | Some r \<Rightarrow> thr_pr_curves r),
          total_predictions = total_preds,
          total_ground_truths = total_gts,
          iou_thresholds_used = iou_thresholds\<rparr>)"

section \<open>main.py: InferenceStore\<close>

text \<open>What a detector returns for one object: \<open>{class, confidence, bbox}\<close>.\<close>

record detection =
  det_class :: string
  det_confidence :: rat
  det_bbox :: bbox

text \<open>
  A ground truth as handed to \<open>record_inference\<close>: \<open>{class, bbox}\<close> and possibly
  \<open>difficult\<close>; \<open>g.get("difficult", 0)\<close> supplies the default.
\<close>

record annotation =
  ann_class :: string
  ann_bbox :: bbox
  ann_difficult :: "int option"

record fps_entry =
  fps_time :: nat
  fps_fps :: rat
  fps_latency_ms :: rat

text \<open>
  An \<open>asyncio.Queue\<close>: its items and its \<open>maxsize\<close> (not positive: unbounded).
  The store keeps references to queues in \<open>subscribers\<close>; a reference is an address
  and \<open>queues\<close> is the heap of the queue objects.
\<close>

record 'e queue =
  q_items :: "'e list"
  q_maxsize :: int

record 'e store =
  max_history :: nat
  latency_history :: "string \<rightharpoonup> rat list"
  fps_history :: "string \<rightharpoonup> fps_entry list"
  all_predictions :: "string \<rightharpoonup> (string \<times> prediction list) list"
  all_ground_truths :: "string \<rightharpoonup> (string \<times> ground_truth list) list"
  subscribers :: "nat list"
  queues :: "nat \<Rightarrow> 'e queue"
  inference_count :: nat
  eval_cache :: "string \<rightharpoonup> evaluation"

datatype py_error = KeyError | ValueError

text \<open>\<open>InferenceStore.__init__\<close>; the heap of queues is whatever it is.\<close>

definition init_store :: "nat \<Rightarrow> (nat \<Rightarrow> 'e queue) \<Rightarrow> 'e store" where
  "init_store mh heap =
     \<lparr>max_history = mh,
      latency_history = [''yolov5'' \<mapsto> [], ''detr'' \<mapsto> []],
      fps_history = [''yolov5'' \<mapsto> [], ''detr'' \<mapsto> []],
      all_predictions = [''yolov5'' \<mapsto> [], ''detr'' \<mapsto> []],
      all_ground_truths = [''yolov5'' \<mapsto> [], ''detr'' \<mapsto> []],
      subscribers = [],
      queues = heap,
      inference_count = 0,
      eval_cache = Map.empty\<rparr>"

text \<open>\<open>deque(maxlen=n).append(x)\<close>: the oldest entries fall out on the left.\<close>

definition deque_append :: "nat \<Rightarrow> 'a list \<Rightarrow> 'a \<Rightarrow> 'a list" where
  "deque_append maxlen xs x = (let ys = xs @ [x] in drop (length ys - maxlen) ys)"

definition format_pred :: "detection \<Rightarrow> prediction" where
  "format_pred d = \<lparr>class_name = det_class d, confidence = det_confidence d, bbox = det_bbox d\<rparr>"

definition format_gt :: "annotation \<Rightarrow> ground_truth" where
  "format_gt g =
     \<lparr>gt_class_name = ann_class g, gt_bbox = ann_bbox g,
      difficult = (case ann_difficult g of None \<Rightarrow> 0 | Some d \<Rightarrow> d)\<rparr>"

text \<open>
  \<open>record_inference\<close> returns the store as the call leaves it, also when a
  subscript \<open>d[model]\<close> raises \<open>KeyError\<close> after earlier statements have run.
\<close>

definition record_inference :: "'e store \<Rightarrow> string \<Rightarrow> string \<Rightarrow> detection list \<Rightarrow> annotation list \<Rightarrow> rat \<Rightarrow> int \<Rightarrow> int \<Rightarrow> (py_error + unit) \<times> 'e store" where
  "record_inference self model image_id detections ground_truths latency_ms iteration total_iterations =
     (let s1 = (if iteration = 1 then self\<lparr>inference_count := inference_count self + 1\<rparr> else self)
      in case latency_history s1 model of
           None \<Rightarrow> (Inl KeyError, s1)
         | Some lat \<Rightarrow>
             let s2 = s1\<lparr>latency_history :=
                          (latency_history s1)(model \<mapsto> deque_append (max_history s1) lat latency_ms)\<rparr>;
                 fps = (if latency_ms > 0 then 1000 / latency_ms else 0)
             in if iteration = 1 then
                  (case fps_history s2 model of
                     None \<Rightarrow> (Inl KeyError, s2)
                   | Some fh \<Rightarrow>
                       let s3 = s2\<lparr>fps_history :=
                                    (fps_history s2)(model \<mapsto>
                                       deque_append (max_history s2) fh
                                         \<lparr>fps_time = inference_count s2,
                                          fps_fps = py_round fps 1,
                                          fps_latency_ms = py_round latency_ms 2\<rparr>)\<rparr>;
                           preds_formatted = map format_pred detections
                       in (case all_predictions s3 model of
                             None \<Rightarrow> (Inl KeyError, s3)
                           | Some pd \<Rightarrow>
                               let s4 = s3\<lparr>all_predictions :=
                                            (all_predictions s3)(model \<mapsto>
                                               AList.update image_id preds_formatted pd)\<rparr>;
                                   gts_formatted = map format_gt ground_truths
                               in (case all_ground_truths s4 model of
                                     None \<Rightarrow> (Inl KeyError, s4)
                                   | Some gd \<Rightarrow>
                                       let s5 = s4\<lparr>all_ground_truths :=
                                                    (all_ground_truths s4)(model \<mapsto>
                                                       AList.update image_id gts_formatted gd)\<rparr>
                                       in (Inr (), s5\<lparr>eval_cache := (eval_cache s5)(model := None)\<rparr>))))
                else (Inr (), s2))"

definition VOC_CLASSES :: "string list" where
  "VOC_CLASSES =
     [''person'', ''bird'', ''cat'', ''cow'', ''dog'', ''horse'', ''sheep'',
      ''aeroplane'', ''bicycle'', ''boat'', ''bus'', ''car'', ''motorbike'', ''train'',
      ''bottle'', ''chair'', ''diningtable'', ''pottedplant'', ''sofa'', ''tvmonitor'']"

text \<open>\<open>self.all_predictions.get(model, {})\<close>\<close>

definition model_dict :: "(string \<rightharpoonup> (string \<times> 'v) list) \<Rightarrow> string \<Rightarrow> (string \<times> 'v) list" where
  "model_dict d model = (case d model of None \<Rightarrow> [] | Some x \<Rightarrow> x)"

text \<open>
  \<open>get_evaluation\<close> returns its result and the store with the cache as the call
  leaves it. The \<open>except\<close> branch has no counterpart: on these types no statement of
  \<open>evaluate_detections\<close> raises.
\<close>

definition get_evaluation :: "(string list \<Rightarrow> string list) \<Rightarrow> 'e store \<Rightarrow> string \<Rightarrow> evaluation option \<times> 'e store" where
  "get_evaluation set_order self model =
     (case eval_cache self model of
        Some r \<Rightarrow> (Some r, self)
      | None \<Rightarrow>
          let preds = model_dict (all_predictions self) model;
              gts = model_dict (all_ground_truths self) model
          in if preds = [] then (None, self)
             else
               let result = evaluate_detections set_order preds gts VOC_CLASSES (Some [1 / 2])
               in (Some result, self\<lparr>eval_cache := (eval_cache self)(model \<mapsto> result)\<rparr>))"

record pr_point =
  pp_recall :: rat
  pp_precision :: rat

text \<open>\<open>xs[::step]\<close> for a positive step.\<close>

definition slice_step :: "'a list \<Rightarrow> nat \<Rightarrow> 'a list" where
  "slice_step xs step = map (\<lambda>i. xs ! i) (range_step (length xs) step)"

definition get_pr_curve :: "(string list \<Rightarrow> string list) \<Rightarrow> 'e store \<Rightarrow> string \<Rightarrow> pr_point list \<times> 'e store" where
  "get_pr_curve set_order self model =
     (case get_evaluation set_order self model of
        (None, self') \<Rightarrow> ([], self')
      | (Some ev, self') \<Rightarrow>
          let all_points = concat (map snd (pr_curves ev))
          in if all_points = [] then ([], self')
             else
               let all_points = sort_key cp_recall all_points;
                   step = max 1 (length all_points div 50)
               in (map (\<lambda>p. \<lparr>pp_recall = py_round (cp_recall p) 4,
                              pp_precision = py_round (cp_precision p) 4\<rparr>)
                     (slice_step all_points step),
                   self'))"

subsection \<open>broadcast_event\<close>

text \<open>\<open>Queue.put_nowait\<close>: \<open>None\<close> stands for \<open>QueueFull\<close>.\<close>

definition queue_full :: "'e queue \<Rightarrow> bool" where
  "queue_full q \<longleftrightarrow> (if q_maxsize q \<le> 0 then False else int (length (q_items q)) \<ge> q_maxsize q)"

definition put_nowait :: "'e queue \<Rightarrow> 'e \<Rightarrow> 'e queue option" where
  "put_nowait q item = (if queue_full q then None else Some (q\<lparr>q_items := q_items q @ [item]\<rparr>))"

text \<open>The first loop, on the heap and the list \<open>dead\<close>.\<close>

definition broadcast_step :: "'e \<Rightarrow> nat \<Rightarrow> (nat \<Rightarrow> 'e queue) \<times> nat list \<Rightarrow> (nat \<Rightarrow> 'e queue) \<times> nat list" where
  "broadcast_step event q st =
     (case st of (heap, dead) \<Rightarrow>
        (case put_nowait (heap q) event of
           None \<Rightarrow> (heap, dead @ [q])
         | Some q' \<Rightarrow> (heap(q := q'), dead)))"

text \<open>\<open>list.remove(x)\<close>: the first occurrence goes; \<open>None\<close> stands for \<open>ValueError\<close>.\<close>

fun list_remove :: "'a \<Rightarrow> 'a list \<Rightarrow> 'a list option" where
  "list_remove x [] = None"
| "list_remove x (y # ys) =
     (if x = y then Some ys else map_option ((#) y) (list_remove x ys))"

text \<open>The second loop; it stops at the first \<open>ValueError\<close>.\<close>

fun remove_dead :: "nat list \<Rightarrow> nat list \<Rightarrow> (py_error + unit) \<times> nat list" where
  "remove_dead [] subs = (Inr (), subs)"
| "remove_dead (q # dead) subs =
     (case list_remove q subs of
        None \<Rightarrow> (Inl ValueError, subs)
      | Some subs' \<Rightarrow> remove_dead dead subs')"

definition broadcast_event :: "'e store \<Rightarrow> 'e \<Rightarrow> (py_error + unit) \<times> 'e store" where
  "broadcast_event self event =
     (let st = fold (broadcast_step event) (subscribers self) (queues self, []);
          r = remove_dead (snd st) (subscribers self)
      in (fst r, self\<lparr>queues := fst st, subscribers := snd r\<rparr>))"

section \<open>Observations and concrete inputs\<close>

text \<open>
  Which ground truth each prediction is matched to, read off the loop of
  \<open>match_predictions_to_gt\<close>: for every prediction, in order, \<open>Some best_gt_idx\<close>
  when the test \<open>best_iou >= iou_threshold and best_gt_idx >= 0\<close> of line 73 succeeds
  and \<open>None\<close> when it fails. The loop state is stepped by \<open>match_step\<close> itself.
\<close>

fun match_trace :: "rat \<Rightarrow> ground_truth list \<Rightarrow> prediction list \<Rightarrow> int set \<times> bool list \<Rightarrow> int option list" where
  "match_trace iou_threshold ground_truths [] st = []"
| "match_trace iou_threshold ground_truths (pred # predictions) st =
     (case best_gt (bbox pred) ground_truths (fst st) of (best_iou, best_gt_idx) \<Rightarrow>
        if best_iou \<ge> iou_threshold \<and> best_gt_idx \<ge> 0 then Some best_gt_idx else None)
     # match_trace iou_threshold ground_truths predictions
         (match_step iou_threshold ground_truths pred st)"

text \<open>A prediction matched to a ground truth that is marked difficult.\<close>

definition difficult_match :: "ground_truth list \<Rightarrow> int option \<Rightarrow> bool" where
  "difficult_match ground_truths m =
     (case m of None \<Rightarrow> False | Some g \<Rightarrow> difficult (ground_truths ! nat g) \<noteq> 0)"

text \<open>The data model's well-formed box: \<open>x1 < x2\<close> and \<open>y1 < y2\<close>.\<close>

definition valid_box :: "bbox \<Rightarrow> bool" where
  "valid_box b = (case b of (x1, y1, x2, y2) \<Rightarrow> x1 < x2 \<and> y1 < y2)"

definition box_a :: bbox where
  "box_a = (0, 0, 10, 10)"

definition box_b :: bbox where
  "box_b = (20, 20, 30, 30)"

definition box_c :: bbox where
  "box_c = (50, 50, 60, 60)"

definition cat_pred :: "rat \<Rightarrow> bbox \<Rightarrow> prediction" where
  "cat_pred c b = \<lparr>class_name = ''cat'', confidence = c, bbox = b\<rparr>"

definition cat_gt :: "bbox \<Rightarrow> int \<Rightarrow> ground_truth" where
  "cat_gt b d = \<lparr>gt_class_name = ''cat'', gt_bbox = b, difficult = d\<rparr>"

text \<open>
  Two predictions in descending confidence, the first on a difficult ground truth, the
  second on no ground truth; a second, non-difficult ground truth elsewhere.
\<close>

definition c1_predictions :: "prediction list" where
  "c1_predictions = [cat_pred (9 / 10) box_a, cat_pred (8 / 10) box_b]"

definition c1_ground_truths :: "ground_truth list" where
  "c1_ground_truths = [cat_gt box_a 1, cat_gt box_c 0]"

text \<open>Two predictions on the same box.\<close>

definition c2_predictions :: "prediction list" where
  "c2_predictions = [cat_pred (9 / 10) box_a, cat_pred (8 / 10) box_a]"

text \<open>One image with one cat prediction and one cat ground truth on the same box.\<close>

definition one_cat_predictions :: "(string \<times> prediction list) list" where
  "one_cat_predictions = [(''img'', [cat_pred (9 / 10) box_a])]"

definition one_cat_ground_truths :: "(string \<times> ground_truth list) list" where
  "one_cat_ground_truths = [(''img'', [cat_gt box_a 0])]"

text \<open>
  The calls a client makes on the store, and a sequence of them run from a given store.
  Neither method awaits, so the calls of concurrent coroutines take effect one after
  another.
\<close>

datatype op =
    RecordInference string string "detection list" "annotation list" rat int int
  | GetEvaluation string

fun run_op :: "(string list \<Rightarrow> string list) \<Rightarrow> op \<Rightarrow> 'e store \<Rightarrow> 'e store" where
  "run_op set_order (RecordInference model image_id detections ground_truths latency_ms iteration total_iterations) s =
     snd (record_inference s model image_id detections ground_truths latency_ms iteration total_iterations)"
| "run_op set_order (GetEvaluation model) s = snd (get_evaluation set_order s model)"

definition run_ops :: "(string list \<Rightarrow> string list) \<Rightarrow> op list \<Rightarrow> 'e store \<Rightarrow> 'e store" where
  "run_ops set_order ops s = fold (run_op set_order) ops s"

text \<open>A heap in which every queue is a new \<open>asyncio.Queue(maxsize=100)\<close>.\<close>

definition empty_heap :: "nat \<Rightarrow> string queue" where
  "empty_heap a = \<lparr>q_items = [], q_maxsize = 100\<rparr>"

definition cat_det :: "rat \<Rightarrow> bbox \<Rightarrow> detection" where
  "cat_det c b = \<lparr>det_class = ''cat'', det_confidence = c, det_bbox = b\<rparr>"

definition cat_ann :: "bbox \<Rightarrow> annotation" where
  "cat_ann b = \<lparr>ann_class = ''cat'', ann_bbox = b, ann_difficult = None\<rparr>"

definition c4_ops :: "op list" where
  "c4_ops =
     [RecordInference ''yolov5'' ''img1'' [cat_det (9 / 10) box_a] [cat_ann box_a] 12 1 1,
      GetEvaluation ''yolov5'',
      RecordInference ''yolov5'' ''img2'' [cat_det (8 / 10) box_b] [cat_ann box_c] 15 1 1,
      RecordInference ''yolov5'' ''img2'' [] [] 14 2 2]"

text \<open>
  What the evaluation pipeline gives on the maps the store holds for a model at this
  moment, and the invariant that every cached result is that value.
\<close>

definition current_evaluation :: "(string list \<Rightarrow> string list) \<Rightarrow> 'e store \<Rightarrow> string \<Rightarrow> evaluation" where
  "current_evaluation set_order s model =
     evaluate_detections set_order (model_dict (all_predictions s) model)
       (model_dict (all_ground_truths s) model) VOC_CLASSES (Some [1 / 2])"

definition cache_valid :: "(string list \<Rightarrow> string list) \<Rightarrow> 'e store \<Rightarrow> bool" where
  "cache_valid set_order s \<longleftrightarrow>
     dom (all_predictions s) \<subseteq> dom (all_ground_truths s) \<and>
     (\<forall>model r. eval_cache s model = Some r \<longrightarrow> r = current_evaluation set_order s model)"

text \<open>Two subscribers: queue 0 holds 100 events and is full, queue 1 is empty.\<close>

definition c9_heap :: "nat \<Rightarrow> string queue" where
  "c9_heap a =
     (if a = 0 then \<lparr>q_items = replicate 100 ''old'', q_maxsize = 100\<rparr>
      else \<lparr>q_items = [], q_maxsize = 100\<rparr>)"

definition c9_store :: "string store" where
  "c9_store = (init_store 200 c9_heap)\<lparr>subscribers := [0, 1]\<rparr>"

text \<open>
  The scenario of one image with a single cat ground truth and a single cat detection
  on the same box, as handed to \<open>record_inference\<close>.
\<close>

definition c8_detection :: detection where
  "c8_detection = \<lparr>det_class = ''cat'', det_confidence = 9 / 10, det_bbox = (0, 0, 10, 10)\<rparr>"

definition c8_ground_truth :: annotation where
  "c8_ground_truth = \<lparr>ann_class = ''cat'', ann_bbox = (0, 0, 10, 10), ann_difficult = None\<rparr>"

text \<open>
  A new store into which one image is recorded with 98 cat detections on the box of
  its single cat ground truth.
\<close>

definition c7_store :: "string store" where
  "c7_store =
     snd (record_inference (init_store 200 empty_heap) ''yolov5'' ''img''
            (replicate 98 c8_detection) [c8_ground_truth] 12 1 1)"

text \<open>
  Two images with one cat prediction each, both of confidence 0.5: the prediction of
  image \<open>a\<close> lies on that image's ground truth, the prediction of image \<open>b\<close>
  misses the ground truth of image \<open>b\<close>.
\<close>

definition c6_predictions :: "(string \<times> prediction list) list" where
  "c6_predictions = [(''a'', [cat_pred (1 / 2) box_a]), (''b'', [cat_pred (1 / 2) box_b])]"

definition c6_ground_truths :: "(string \<times> ground_truth list) list" where
  "c6_ground_truths = [(''a'', [cat_gt box_a 0]), (''b'', [cat_gt box_c 0])]"

section \<open>Properties of the matcher\<close>

lemma best_gt_fold_idx:
  "fold (best_gt_step pb M) (enumerate n gts) (b, i) = (b', i') \<Longrightarrow>
     i' = i \<or> (int n \<le> i' \<and> i' < int n + int (length gts) \<and> i' \<notin> M)"
proof (induction gts arbitrary: n b i)
  case Nil
  then show ?case by simp
next
  case (Cons g gts)
  obtain b1 i1 where s: "best_gt_step pb M (n, g) (b, i) = (b1, i1)"
    by (cases "best_gt_step pb M (n, g) (b, i)")
  have h: "i1 = i \<or> (i1 = int n \<and> int n \<notin> M)"
    using s by (auto simp: best_gt_step_def Let_def split: if_splits)
  from Cons.prems s have "fold (best_gt_step pb M) (enumerate (Suc n) gts) (b1, i1) = (b', i')"
    by simp
  from Cons.IH[OF this] h show ?case by auto
qed

text \<open>
  A ground truth that the inner loop selects is not in \<open>matched_gt\<close>, and its index is
  in range, so the subscript \<open>ground_truths[best_gt_idx]\<close> of line 74 does not raise.
\<close>

lemma best_gt_idx:
  assumes "best_gt pb gts M = (iou, idx)" and "0 \<le> idx"
  shows "idx \<notin> M \<and> idx < int (length gts)"
  using best_gt_fold_idx[of pb M 0 gts 0 "- 1" iou idx] assms
  by (auto simp: best_gt_def)

lemma match_step_cases:
  assumes "best_gt (bbox p) gts M = (iou, idx)"
  shows "match_step thr gts p (M, F) =
           (if iou \<ge> thr \<and> idx \<ge> 0 then
              (if difficult (gts ! nat idx) \<noteq> 0 then (M, F) else (insert idx M, F @ [True]))
            else (M, F @ [False]))"
  using assms by (simp add: match_step_def Let_def)

lemma match_trace_count:
  assumes "difficult (gts ! nat g) = 0"
  shows "count_list (match_trace thr gts preds (M, F)) (Some g) \<le> (if g \<in> M then 0 else 1)"
proof (induction preds arbitrary: M F)
  case Nil
  then show ?case by simp
next
  case (Cons p ps)
  obtain iou idx where b: "best_gt (bbox p) gts M = (iou, idx)"
    by (cases "best_gt (bbox p) gts M")
  note st = match_step_cases[OF b, of thr F]
  show ?case
  proof (cases "iou \<ge> thr \<and> idx \<ge> 0")
    case True
    then have nin: "idx \<notin> M" using best_gt_idx[OF b] by simp
    show ?thesis
    proof (cases "idx = g")
      case True
      with \<open>iou \<ge> thr \<and> idx \<ge> 0\<close> assms st
      have "match_step thr gts p (M, F) = (insert g M, F @ [True])" by simp
      moreover have "count_list (match_trace thr gts ps (insert g M, F @ [True])) (Some g) \<le> 0"
        using Cons.IH[of "insert g M" "F @ [True]"] by simp
      ultimately show ?thesis using b True nin \<open>iou \<ge> thr \<and> idx \<ge> 0\<close> by simp
    next
      case False
      obtain M' F' where s': "match_step thr gts p (M, F) = (M', F')"
        by (cases "match_step thr gts p (M, F)")
      have sub: "M \<subseteq> M'" using st s' by (auto split: if_splits)
      have "count_list (match_trace thr gts ps (M', F')) (Some g) \<le> (if g \<in> M' then 0 else 1)"
        by (rule Cons.IH)
      also have "\<dots> \<le> (if g \<in> M then 0 else 1)" using sub by auto
      finally show ?thesis using b False s' by (auto split: if_splits)
    qed
  next
    case False
    then have "match_step thr gts p (M, F) = (M, F @ [False])" using st by simp
    then show ?thesis using b False Cons.IH[of M "F @ [False]"] by auto
  qed
qed

text \<open>
  Every index in \<open>matched_gt\<close> is the index of a ground truth that is not difficult.
\<close>

lemma match_loop_matched:
  assumes "\<forall>i\<in>M. 0 \<le> i \<and> i < int (length gts) \<and> difficult (gts ! nat i) = 0"
  shows "\<forall>i\<in>fst (match_loop thr gts preds (M, F)).
           0 \<le> i \<and> i < int (length gts) \<and> difficult (gts ! nat i) = 0"
  using assms
proof (induction preds arbitrary: M F)
  case Nil
  then show ?case by (simp add: match_loop_def)
next
  case (Cons p ps)
  obtain iou idx where b: "best_gt (bbox p) gts M = (iou, idx)"
    by (cases "best_gt (bbox p) gts M")
  note st = match_step_cases[OF b, of thr F]
  have unf: "match_loop thr gts (p # ps) (M, F) = match_loop thr gts ps (match_step thr gts p (M, F))"
    by (simp add: match_loop_def)
  obtain M' F' where s': "match_step thr gts p (M, F) = (M', F')"
    by (cases "match_step thr gts p (M, F)")
  have "\<forall>i\<in>M'. 0 \<le> i \<and> i < int (length gts) \<and> difficult (gts ! nat i) = 0"
  proof (cases "iou \<ge> thr \<and> idx \<ge> 0 \<and> difficult (gts ! nat idx) = 0")
    case True
    with st s' have "M' = insert idx M" by simp
    moreover from True best_gt_idx[OF b] have "0 \<le> idx \<and> idx < int (length gts)" by simp
    ultimately show ?thesis using True Cons.prems by auto
  next
    case False
    with st s' have "M' = M" by (auto split: if_splits)
    then show ?thesis using Cons.prems by simp
  qed
  from Cons.IH[OF this, of F'] show ?case by (simp add: unf s')
qed

text \<open>
  The flags the loop appends are those of the predictions that are not matched to a
  difficult ground truth, in the predictions' order.
\<close>

lemma match_loop_flags:
  "snd (match_loop thr gts preds (M, F)) =
     F @ map (\<lambda>m. m \<noteq> None)
           (filter (\<lambda>m. \<not> difficult_match gts m) (match_trace thr gts preds (M, F)))"
proof (induction preds arbitrary: M F)
  case Nil
  then show ?case by (simp add: match_loop_def)
next
  case (Cons p ps)
  obtain iou idx where b: "best_gt (bbox p) gts M = (iou, idx)"
    by (cases "best_gt (bbox p) gts M")
  note st = match_step_cases[OF b, of thr F]
  have unf: "match_loop thr gts (p # ps) (M, F) = match_loop thr gts ps (match_step thr gts p (M, F))"
    by (simp add: match_loop_def)
  show ?case
    unfolding unf
    by (cases "iou \<ge> thr \<and> idx \<ge> 0"; cases "difficult (gts ! nat idx) \<noteq> 0")
       (simp_all add: st b Cons.IH difficult_match_def)
qed

lemma match_trace_length:
  "length (match_trace thr gts preds st) = length preds"
  by (induction preds arbitrary: st) (auto split: prod.splits)

text \<open>
  There are never more flags than predictions, so the subscript \<open>img_preds[i]\<close> of
  line 160 does not raise.
\<close>

lemma tp_flags_length_le:
  "length (fst (match_predictions_to_gt preds gts thr)) \<le> length preds"
  using length_filter_le[of "\<lambda>m. \<not> difficult_match gts m" "match_trace thr gts preds ({}, [])"]
  by (simp add: match_predictions_to_gt_def Let_def match_loop_flags match_trace_length)

lemma compute_iou_same:
  assumes "valid_box b"
  shows "compute_iou b b = 1"
proof -
  obtain x1 y1 x2 y2 where b: "b = (x1, y1, x2, y2)" by (cases b) auto
  from assms b have lt: "x1 < x2" "y1 < y2" by (simp_all add: valid_box_def)
  then have pos: "(x2 - x1) * (y2 - y1) > 0" by simp
  from lt have ne: "x2 \<noteq> x1" "y2 \<noteq> y1" by simp_all
  from lt have m: "max 0 (x2 - x1) = x2 - x1" "max 0 (y2 - y1) = y2 - y1" by simp_all
  show ?thesis
    unfolding b compute_iou_def using pos ne lt by (simp add: Let_def m)
qed

lemma two_full_overlaps:
  assumes "difficult gt = 0" "valid_box (gt_bbox gt)" "bbox p1 = gt_bbox gt" "bbox p2 = gt_bbox gt"
  shows "match_predictions_to_gt [p1, p2] [gt] (1 / 2) = ([True, False], 1)"
  using assms
  by (simp add: match_predictions_to_gt_def match_loop_def match_step_def best_gt_def
        best_gt_step_def compute_iou_same Let_def)

text \<open>
  C1. The claim: \<open>tp_flags\<close> holds exactly one boolean per prediction, in the
  predictions' order, and the pipeline pairs \<open>tp_flags[i]\<close> with the confidence of
  prediction \<open>i\<close>. The code at a concrete input: of two predictions, the first
  (confidence 0.9) is matched to a difficult ground truth and gets no flag, so
  \<open>tp_flags\<close> has one entry for two predictions; that entry is the flag of the second
  prediction (confidence 0.8), and the pooling loop of \<open>evaluate_detections\<close> pairs it
  with confidence 0.9.
\<close>

theorem C1_tp_flags_shorter_than_predictions:
  "match_predictions_to_gt c1_predictions c1_ground_truths (1 / 2) = ([False], 1)
   \<and> length c1_predictions = 2
   \<and> map confidence c1_predictions = [9 / 10, 8 / 10]
   \<and> match_trace (1 / 2) c1_ground_truths c1_predictions ({}, []) = [Some 0, None]
   \<and> fst (gather_class remdups (1 / 2) [(''img'', c1_predictions)] [(''img'', c1_ground_truths)] ''cat'')
       = [(9 / 10, False)]"
  by code_simp

text \<open>
  C2, the claim as stated, refuted. With a single difficult ground truth and two
  predictions on its box, the first prediction is matched to ground truth 0 and so is
  the second: a difficult ground truth is never added to \<open>matched_gt\<close>. Both
  predictions are dropped.
\<close>

theorem C2_difficult_gt_matched_twice:
  "match_trace (1 / 2) [cat_gt box_a 1] c2_predictions ({}, []) = [Some 0, Some 0]
   \<and> fst (match_step (1 / 2) [cat_gt box_a 1] (cat_pred (9 / 10) box_a) ({}, [])) = {}
   \<and> match_predictions_to_gt c2_predictions [cat_gt box_a 1] (1 / 2) = ([], 0)"
  by code_simp

text \<open>
  C2, amended. Within one call, a ground truth that is not difficult is matched by at
  most one prediction, for every input and threshold. A difficult ground truth is
  never recorded as matched: \<open>matched_gt\<close> holds indices of non-difficult ground
  truths only, and a prediction whose best remaining ground truth meets the threshold
  and is difficult is matched to it and dropped, the loop state staying as it was, so
  that the next prediction meets the same difficult ground truth again. At threshold
  0.5, of two predictions on the box of a single non-difficult ground truth, the first
  is flagged true-positive and the second false-positive.
\<close>

theorem C2_non_difficult_gt_matched_at_most_once:
  "(0 \<le> g \<and> g < int (length gts) \<and> difficult (gts ! nat g) = 0 \<longrightarrow>
      count_list (match_trace thr gts preds ({}, [])) (Some g) \<le> 1)
   \<and> (i \<in> fst (match_loop thr gts preds ({}, [])) \<longrightarrow>
        0 \<le> i \<and> i < int (length gts) \<and> difficult (gts ! nat i) = 0)
   \<and> (best_gt (bbox p) gts M = (iou, idx) \<and> iou \<ge> thr \<and> idx \<ge> 0
        \<and> difficult (gts ! nat idx) \<noteq> 0 \<longrightarrow>
        match_step thr gts p (M, F) = (M, F)
        \<and> match_trace thr gts (p # ps) (M, F) = Some idx # match_trace thr gts ps (M, F))
   \<and> (difficult gt = 0 \<and> valid_box (gt_bbox gt) \<and> bbox p1 = gt_bbox gt \<and> bbox p2 = gt_bbox gt \<longrightarrow>
        match_predictions_to_gt [p1, p2] [gt] (1 / 2) = ([True, False], 1))"
proof (intro conjI impI)
  assume "0 \<le> g \<and> g < int (length gts) \<and> difficult (gts ! nat g) = 0"
  then have "difficult (gts ! nat g) = 0" by simp
  from match_trace_count[OF this, of thr preds "{}" "[]"]
  show "count_list (match_trace thr gts preds ({}, [])) (Some g) \<le> 1" by simp
next
  assume "i \<in> fst (match_loop thr gts preds ({}, []))"
  with match_loop_matched[of "{}" gts thr preds "[]"]
  have a: "0 \<le> i \<and> i < int (length gts) \<and> difficult (gts ! nat i) = 0" by simp
  from a show "0 \<le> i" by simp
  from a show "i < int (length gts)" by simp
  from a show "difficult (gts ! nat i) = 0" by simp
next
  assume a: "best_gt (bbox p) gts M = (iou, idx) \<and> iou \<ge> thr \<and> idx \<ge> 0
        \<and> difficult (gts ! nat idx) \<noteq> 0"
  then show s: "match_step thr gts p (M, F) = (M, F)"
    by (simp add: match_step_cases)
  from a s show "match_trace thr gts (p # ps) (M, F) = Some idx # match_trace thr gts ps (M, F)"
    by simp
next
  assume "difficult gt = 0 \<and> valid_box (gt_bbox gt) \<and> bbox p1 = gt_bbox gt \<and> bbox p2 = gt_bbox gt"
  then show "match_predictions_to_gt [p1, p2] [gt] (1 / 2) = ([True, False], 1)"
    by (simp add: two_full_overlaps)
qed

theorem C2_non_difficult_gt_matched_at_most_once_witness:
  "count_list (match_trace (1 / 2) [cat_gt box_a 0] c2_predictions ({}, [])) (Some 0) \<le> 1
   \<and> fst (match_loop (1 / 2) [cat_gt box_a 0] c2_predictions ({}, [])) = {0}
   \<and> difficult ([cat_gt box_a 0] ! nat 0) = 0
   \<and> best_gt (bbox (cat_pred (9 / 10) box_a)) [cat_gt box_a 1] {} = (1, 0)
   \<and> match_step (1 / 2) [cat_gt box_a 1] (cat_pred (9 / 10) box_a) ({}, []) = ({}, [])
   \<and> match_trace (1 / 2) [cat_gt box_a 1] [cat_pred (9 / 10) box_a, cat_pred (8 / 10) box_a] ({}, [])
       = [Some 0, Some 0]
   \<and> match_predictions_to_gt [cat_pred (9 / 10) box_a, cat_pred (8 / 10) box_a] [cat_gt box_a 0] (1 / 2)
       = ([True, False], 1)"
proof -
  have h1: "(0::int) \<le> 0 \<and> 0 < int (length [cat_gt box_a 0])
            \<and> difficult ([cat_gt box_a 0] ! nat 0) = 0"
    by (simp add: cat_gt_def)
  have h2: "difficult (cat_gt box_a 0) = 0 \<and> valid_box (gt_bbox (cat_gt box_a 0))
            \<and> bbox (cat_pred (9 / 10) box_a) = gt_bbox (cat_gt box_a 0)
            \<and> bbox (cat_pred (8 / 10) box_a) = gt_bbox (cat_gt box_a 0)"
    by (simp add: cat_gt_def cat_pred_def valid_box_def box_a_def)
  have m: "fst (match_loop (1 / 2) [cat_gt box_a 0] c2_predictions ({}, [])) = {0}"
    by code_simp
  then have h3: "0 \<in> fst (match_loop (1 / 2) [cat_gt box_a 0] c2_predictions ({}, []))"
    by simp
  have b: "best_gt (bbox (cat_pred (9 / 10) box_a)) [cat_gt box_a 1] {} = (1, 0)"
    by code_simp
  have h4: "best_gt (bbox (cat_pred (9 / 10) box_a)) [cat_gt box_a 1] {} = (1, 0)
            \<and> (1::rat) \<ge> 1 / 2 \<and> (0::int) \<ge> 0 \<and> difficult ([cat_gt box_a 1] ! nat 0) \<noteq> 0"
    using b by (simp add: cat_gt_def)
  have t: "match_trace (1 / 2) [cat_gt box_a 1] [cat_pred (8 / 10) box_a] ({}, []) = [Some 0]"
    by code_simp
  note a = C2_non_difficult_gt_matched_at_most_once [where g = 0 and gts = "[cat_gt box_a 0]" and thr = "1 / 2"
                  and preds = c2_predictions and i = 0 and gt = "cat_gt box_a 0"
                  and ?p1.0 = "cat_pred (9 / 10) box_a" and ?p2.0 = "cat_pred (8 / 10) box_a"]
  note c = C2_non_difficult_gt_matched_at_most_once [where gts = "[cat_gt box_a 1]" and thr = "1 / 2"
                  and p = "cat_pred (9 / 10) box_a" and M = "{}" and iou = 1 and idx = 0
                  and F = "[]" and ps = "[cat_pred (8 / 10) box_a]"]
  from a h1 have 1: "count_list (match_trace (1 / 2) [cat_gt box_a 0] c2_predictions ({}, [])) (Some 0) \<le> 1"
    by blast
  from a h3 have 2: "difficult ([cat_gt box_a 0] ! nat 0) = 0" by blast
  from c h4 have 3: "match_step (1 / 2) [cat_gt box_a 1] (cat_pred (9 / 10) box_a) ({}, []) = ({}, [])"
    and 4: "match_trace (1 / 2) [cat_gt box_a 1] [cat_pred (9 / 10) box_a, cat_pred (8 / 10) box_a] ({}, [])
              = Some 0 # match_trace (1 / 2) [cat_gt box_a 1] [cat_pred (8 / 10) box_a] ({}, [])"
    by blast+
  from a h2 have 5: "match_predictions_to_gt [cat_pred (9 / 10) box_a, cat_pred (8 / 10) box_a]
                        [cat_gt box_a 0] (1 / 2) = ([True, False], 1)"
    by blast
  from 1 m 2 b 3 4 t 5 show ?thesis by simp
qed

text \<open>
  C3. A prediction whose best ground truth meets the threshold and is marked difficult
  leaves the loop state as it is: no flag is appended for it, neither \<open>True\<close> nor
  \<open>False\<close>. Over the whole call, the flags are those of the other predictions, in
  order, and \<open>n_gt\<close> is the number of ground truths that are not difficult.
\<close>

theorem C3_difficult_match_is_neither_tp_nor_fp:
  "(best_gt (bbox p) gts M = (iou, idx) \<and> iou \<ge> thr \<and> idx \<ge> 0
      \<and> difficult (gts ! nat idx) \<noteq> 0 \<longrightarrow>
      match_step thr gts p (M, F) = (M, F))
   \<and> fst (match_predictions_to_gt preds gts thr) =
       map (\<lambda>m. m \<noteq> None)
         (filter (\<lambda>m. \<not> difficult_match gts m) (match_trace thr gts preds ({}, [])))
   \<and> snd (match_predictions_to_gt preds gts thr) = length (filter (\<lambda>g. difficult g = 0) gts)"
proof (intro conjI impI)
  assume "best_gt (bbox p) gts M = (iou, idx) \<and> iou \<ge> thr \<and> idx \<ge> 0
            \<and> difficult (gts ! nat idx) \<noteq> 0"
  then show "match_step thr gts p (M, F) = (M, F)"
    by (simp add: match_step_cases)
next
  show "fst (match_predictions_to_gt preds gts thr) =
          map (\<lambda>m. m \<noteq> None)
            (filter (\<lambda>m. \<not> difficult_match gts m) (match_trace thr gts preds ({}, [])))"
    by (simp add: match_predictions_to_gt_def Let_def match_loop_flags)
next
  show "snd (match_predictions_to_gt preds gts thr) = length (filter (\<lambda>g. difficult g = 0) gts)"
    by (simp add: match_predictions_to_gt_def Let_def)
qed

theorem C3_difficult_match_is_neither_tp_nor_fp_witness:
  "best_gt (bbox (cat_pred (9 / 10) box_a)) [cat_gt box_a 1] {} = (1, 0)
   \<and> match_step (1 / 2) [cat_gt box_a 1] (cat_pred (9 / 10) box_a) ({}, [True]) = ({}, [True])
   \<and> snd (match_predictions_to_gt c2_predictions [cat_gt box_a 1, cat_gt box_b 0] (1 / 2)) = 1"
proof -
  have b: "best_gt (bbox (cat_pred (9 / 10) box_a)) [cat_gt box_a 1] {} = (1, 0)"
    by code_simp
  have h: "best_gt (bbox (cat_pred (9 / 10) box_a)) [cat_gt box_a 1] {} = (1, 0)
           \<and> (1::rat) \<ge> 1 / 2 \<and> (0::int) \<ge> 0
           \<and> difficult ([cat_gt box_a 1] ! nat 0) \<noteq> 0"
    using b by (simp add: cat_gt_def)
  have n: "length (filter (\<lambda>g. difficult g = 0) [cat_gt box_a 1, cat_gt box_b 0]) = 1"
    by (simp add: cat_gt_def)
  from C3_difficult_match_is_neither_tp_nor_fp
         [of "cat_pred (9 / 10) box_a" "[cat_gt box_a 1]" "{}" 1 0 "1 / 2" "[True]"]
       C3_difficult_match_is_neither_tp_nor_fp
         [of _ "[cat_gt box_a 1, cat_gt box_b 0]" _ _ _ "1 / 2" _ c2_predictions]
       h b n
  show ?thesis by simp
qed

section \<open>Properties of the evaluation pipeline\<close>

lemma fold_update_keys:
  "fst ` set (fold (\<lambda>k. AList.update k (f k)) ks al) = set ks \<union> fst ` set al"
  by (induction ks arbitrary: al) (auto simp: dom_update)

lemma fold_update_distinct:
  "distinct (map fst al) \<Longrightarrow> distinct (map fst (fold (\<lambda>k. AList.update k (f k)) ks al))"
  by (induction ks arbitrary: al) (auto simp: distinct_update)

lemma fold_update_lookup:
  "map_of (fold (\<lambda>k. AList.update k (f k)) ks al) k =
     (if k \<in> set ks then Some (f k) else map_of al k)"
  by (induction ks arbitrary: al) (auto simp: update_conv')

lemma fold_update_values:
  "map snd (fold (\<lambda>k. AList.update k (f k)) ks []) =
     map f (map fst (fold (\<lambda>k. AList.update k (f k)) ks []))"
proof -
  let ?al = "fold (\<lambda>k. AList.update k (f k)) ks []"
  have d: "distinct (map fst ?al)" by (rule fold_update_distinct) simp
  have "snd e = f (fst e)" if "e \<in> set ?al" for e
  proof -
    from that have "(fst e, snd e) \<in> set ?al" by simp
    then have "map_of ?al (fst e) = Some (snd e)"
      using map_of_eq_Some_iff[OF d] by blast
    moreover from that have "fst e \<in> set ks"
      using fold_update_keys[of f ks "[]"] by force
    ultimately show ?thesis by (simp add: fold_update_lookup)
  qed
  then show ?thesis by (simp add: map_idI comp_def)
qed

lemma fold_class_step:
  "fold (class_step so thr P G) cs (a, b) =
     (fold (\<lambda>c. AList.update c (fst (eval_class so thr P G c))) cs a,
      fold (\<lambda>c. AList.update c (snd (eval_class so thr P G c))) cs b)"
  by (induction cs arbitrary: a b) (simp_all add: class_step_def Let_def)

lemma mean_positive:
  fixes f :: "string \<Rightarrow> rat"
  assumes "distinct ks"
  shows "(let v = filter (\<lambda>ap. ap > 0) (map f ks) in if v \<noteq> [] then mean_of v else 0) =
         (let S = {c \<in> set ks. f c > 0} in if S = {} then 0 else (\<Sum>c\<in>S. f c) / of_nat (card S))"
proof -
  let ?ks' = "filter (\<lambda>k. f k > 0) ks"
  have v: "filter (\<lambda>ap. ap > 0) (map f ks) = map f ?ks'"
    by (simp add: filter_map comp_def)
  have d: "distinct ?ks'" using assms by simp
  have sum: "sum_list (map f ?ks') = (\<Sum>c\<in>{c \<in> set ks. f c > 0}. f c)"
    using sum_list_distinct_conv_sum_set[OF d, of f] by simp
  have card: "length ?ks' = card {c \<in> set ks. f c > 0}"
    using distinct_card[OF d] by simp
  have e: "?ks' = [] \<longleftrightarrow> {c \<in> set ks. f c > 0} = {}"
    by (auto simp: filter_empty_conv)
  show ?thesis
    unfolding Let_def v mean_of_def map_is_Nil_conv length_map sum card e by simp
qed

lemma eval_threshold_mAP:
  "thr_mAP (eval_threshold so P G cs thr) =
     (let S = {c \<in> set cs. fst (eval_class so thr P G c) > 0}
      in if S = {} then 0 else (\<Sum>c\<in>S. fst (eval_class so thr P G c)) / of_nat (card S))"
proof -
  let ?f = "\<lambda>c. fst (eval_class so thr P G c)"
  let ?al = "fold (\<lambda>c. AList.update c (?f c)) cs []"
  have d: "distinct (map fst ?al)" by (rule fold_update_distinct) simp
  have k: "set (map fst ?al) = set cs" using fold_update_keys[of ?f cs "[]"] by simp
  have vals: "map snd ?al = map ?f (map fst ?al)" by (rule fold_update_values)
  have "thr_mAP (eval_threshold so P G cs thr) =
          (let v = filter (\<lambda>ap. ap > 0) (map snd ?al) in if v \<noteq> [] then mean_of v else 0)"
    by (simp add: eval_threshold_def fold_class_step Let_def)
  also have "\<dots> =
          (let v = filter (\<lambda>ap. ap > 0) (map ?f (map fst ?al)) in if v \<noteq> [] then mean_of v else 0)"
    by (simp only: vals)
  also have "\<dots> = (let S = {c \<in> set (map fst ?al). ?f c > 0}
      in if S = {} then 0 else (\<Sum>c\<in>S. ?f c) / of_nat (card S))"
    by (rule mean_positive[OF d])
  finally show ?thesis unfolding k .
qed

lemma rbt_lookup:
  "map_of (results_by_threshold so P G cs thrs) thr =
     (if thr \<in> set thrs then Some (eval_threshold so P G cs thr) else None)"
  unfolding results_by_threshold_def
  using fold_update_lookup[of "\<lambda>t. eval_threshold so P G cs t" thrs "[]" thr] by simp

lemma eval_class_no_gt:
  "snd (gather_class so thr P G c) = 0 \<Longrightarrow> eval_class so thr P G c = (0, [])"
  by (simp add: eval_class_def Let_def)

text \<open>
  C5. For every input and every requested threshold, the mAP stored for that threshold
  is the arithmetic mean of the per-class AP values that are strictly positive, and 0
  when there is none; \<open>mAP_50\<close> is that number for threshold 0.5. A class without a
  non-difficult ground truth has AP 0, so it is not in the average.
\<close>

theorem C5_mAP_is_mean_of_positive_class_APs:
  "(thr \<in> set thrs \<longrightarrow>
      (\<exists>res. map_of (results_by_threshold so P G cs thrs) thr = Some res \<and>
         thr_mAP res =
           (let S = {c \<in> set cs. fst (eval_class so thr P G c) > 0}
            in if S = {} then 0 else (\<Sum>c\<in>S. fst (eval_class so thr P G c)) / of_nat (card S))))
   \<and> (1 / 2 \<in> set thrs \<longrightarrow>
        mAP_50 (evaluate_detections so P G cs (Some thrs)) =
          (let S = {c \<in> set cs. fst (eval_class so (1 / 2) P G c) > 0}
           in if S = {} then 0 else (\<Sum>c\<in>S. fst (eval_class so (1 / 2) P G c)) / of_nat (card S)))
   \<and> (snd (gather_class so thr P G c) = 0 \<longrightarrow> fst (eval_class so thr P G c) = 0)"
  by (simp add: rbt_lookup eval_threshold_mAP eval_class_no_gt evaluate_detections_def Let_def)

theorem C5_mAP_is_mean_of_positive_class_APs_witness:
  "snd (gather_class remdups (1 / 2) one_cat_predictions one_cat_ground_truths ''dog'') = 0
   \<and> fst (eval_class remdups (1 / 2) one_cat_predictions one_cat_ground_truths ''dog'') = 0
   \<and> fst (eval_class remdups (1 / 2) one_cat_predictions one_cat_ground_truths ''cat'') = 1
   \<and> mAP_50 (evaluate_detections remdups one_cat_predictions one_cat_ground_truths
               [''cat'', ''dog''] (Some [1 / 2])) = 1"
proof -
  let ?ap = "\<lambda>c. fst (eval_class remdups (1 / 2) one_cat_predictions one_cat_ground_truths c)"
  have g: "snd (gather_class remdups (1 / 2) one_cat_predictions one_cat_ground_truths ''dog'') = 0"
    by code_simp
  have cat: "?ap ''cat'' = 1"
    by code_simp
  have t: "(1 / 2 :: rat) \<in> set [1 / 2]"
    by simp
  note inst = C5_mAP_is_mean_of_positive_class_APs
               [of "1 / 2" "[1 / 2]" remdups one_cat_predictions one_cat_ground_truths
                   "[''cat'', ''dog'']" "''dog''"]
  from inst g have dog: "?ap ''dog'' = 0" by blast
  have S: "{c \<in> set [''cat'', ''dog'']. ?ap c > 0} = {''cat''}"
    using cat dog by auto
  from inst t have "mAP_50 (evaluate_detections remdups one_cat_predictions one_cat_ground_truths
               [''cat'', ''dog''] (Some [1 / 2])) =
          (let S = {c \<in> set [''cat'', ''dog'']. ?ap c > 0}
           in if S = {} then 0 else (\<Sum>c\<in>S. ?ap c) / of_nat (card S))"
    by blast
  also have "\<dots> = 1" unfolding S Let_def using cat by simp
  finally show ?thesis using g dog cat by simp
qed

text \<open>
  C10. When the (non-empty) list of thresholds does not contain 0.5, the top-level
  \<open>mAP_50\<close> is 0 and \<open>per_class_ap\<close> and \<open>pr_curves\<close> are empty, whatever the
  thresholds that were evaluated gave.
\<close>

theorem C10_no_half_threshold_gives_defaults:
  "thrs \<noteq> [] \<and> 1 / 2 \<notin> set thrs \<longrightarrow>
     mAP_50 (evaluate_detections so P G cs (Some thrs)) = 0
     \<and> per_class_ap (evaluate_detections so P G cs (Some thrs)) = []
     \<and> pr_curves (evaluate_detections so P G cs (Some thrs)) = []"
  by (simp add: evaluate_detections_def Let_def rbt_lookup)

theorem C10_no_half_threshold_gives_defaults_witness:
  "mAP_50 (evaluate_detections remdups one_cat_predictions one_cat_ground_truths [''cat''] (Some [3 / 4])) = 0
   \<and> per_class_ap (evaluate_detections remdups one_cat_predictions one_cat_ground_truths [''cat''] (Some [3 / 4])) = []
   \<and> pr_curves (evaluate_detections remdups one_cat_predictions one_cat_ground_truths [''cat''] (Some [3 / 4])) = []
   \<and> map (\<lambda>(t, r). (t, thr_mAP r))
        (results_by_threshold remdups one_cat_predictions one_cat_ground_truths [''cat''] [3 / 4])
       = [(3 / 4, 1)]"
proof -
  have h: "[3 / 4 :: rat] \<noteq> [] \<and> 1 / 2 \<notin> set [3 / 4 :: rat]" by simp
  have r: "map (\<lambda>(t, r). (t, thr_mAP r))
        (results_by_threshold remdups one_cat_predictions one_cat_ground_truths [''cat''] [3 / 4])
       = [(3 / 4, 1)]"
    by code_simp
  from C10_no_half_threshold_gives_defaults
         [of "[3 / 4]" remdups one_cat_predictions one_cat_ground_truths "[''cat'']"] h r
  show ?thesis by blast
qed

text \<open>
  C6. The claim: two calls of \<open>evaluate_detections\<close> on the same input give the same
  result, the ties of the pooled ranking being resolved in an order that does not vary.
  The code pools the predictions in the iteration order of a set of image ids, and the
  stable sort keeps that order among equal confidences. At a concrete input with a tie
  across two images, two iteration orders of the same set give different pooled
  rankings and different results: \<open>mAP_50\<close> is 1/2 for the order a, b and 1/4 for
  the order b, a.
\<close>

theorem C6_result_depends_on_set_order:
  "is_set_order remdups \<and> is_set_order (rev \<circ> remdups)
   \<and> image_ids remdups c6_predictions c6_ground_truths = [''a'', ''b'']
   \<and> image_ids (rev \<circ> remdups) c6_predictions c6_ground_truths = [''b'', ''a'']
   \<and> fst (gather_class remdups (1 / 2) c6_predictions c6_ground_truths ''cat'')
       = [(1 / 2, True), (1 / 2, False)]
   \<and> fst (gather_class (rev \<circ> remdups) (1 / 2) c6_predictions c6_ground_truths ''cat'')
       = [(1 / 2, False), (1 / 2, True)]
   \<and> mAP_50 (evaluate_detections remdups c6_predictions c6_ground_truths
               [''cat''] (Some [1 / 2])) = 1 / 2
   \<and> mAP_50 (evaluate_detections (rev \<circ> remdups) c6_predictions c6_ground_truths
               [''cat''] (Some [1 / 2])) = 1 / 4"
proof -
  have 1: "is_set_order remdups" by (simp add: is_set_order_def)
  have 2: "is_set_order (rev \<circ> remdups)" by (simp add: is_set_order_def)
  have 3: "image_ids remdups c6_predictions c6_ground_truths = [''a'', ''b'']"
    by code_simp
  have 4: "image_ids (rev \<circ> remdups) c6_predictions c6_ground_truths = [''b'', ''a'']"
    by code_simp
  have 5: "fst (gather_class remdups (1 / 2) c6_predictions c6_ground_truths ''cat'')
             = [(1 / 2, True), (1 / 2, False)]"
    by code_simp
  have 6: "fst (gather_class (rev \<circ> remdups) (1 / 2) c6_predictions c6_ground_truths ''cat'')
             = [(1 / 2, False), (1 / 2, True)]"
    by code_simp
  have 7: "mAP_50 (evaluate_detections remdups c6_predictions c6_ground_truths
               [''cat''] (Some [1 / 2])) = 1 / 2"
    by code_simp
  have 8: "mAP_50 (evaluate_detections (rev \<circ> remdups) c6_predictions c6_ground_truths
               [''cat''] (Some [1 / 2])) = 1 / 4"
    by code_simp
  from 1 2 3 4 5 6 7 8 show ?thesis by blast
qed

section \<open>Properties of the inference store\<close>

lemma record_inference_effect:
  "(let s' = snd (record_inference s m i d g l it tot) in
     (all_predictions s' = all_predictions s \<and> all_ground_truths s' = all_ground_truths s
        \<and> eval_cache s' = eval_cache s)
     \<or> (\<exists>pd gd. all_predictions s m = Some pd \<and> all_ground_truths s m = Some gd
          \<and> all_predictions s' = (all_predictions s)(m \<mapsto> AList.update i (map format_pred d) pd)
          \<and> all_ground_truths s' = (all_ground_truths s)(m \<mapsto> AList.update i (map format_gt g) gd)
          \<and> eval_cache s' = (eval_cache s)(m := None))
     \<or> (all_predictions s m \<noteq> None \<and> all_ground_truths s m = None))"
  by (simp add: record_inference_def Let_def split: option.split)

lemma record_inference_invalidates:
  "fst (record_inference s m i d g l 1 tot) = Inr () \<Longrightarrow>
     eval_cache (snd (record_inference s m i d g l 1 tot)) m = None"
  by (simp add: record_inference_def Let_def split: option.splits)

lemma cache_valid_init: "cache_valid so (init_store mh heap)"
  by (simp add: cache_valid_def init_store_def)

lemma cache_valid_record:
  assumes "cache_valid so s"
  shows "cache_valid so (snd (record_inference s m i d g l it tot))"
proof -
  let ?s' = "snd (record_inference s m i d g l it tot)"
  from assms have sub: "dom (all_predictions s) \<subseteq> dom (all_ground_truths s)"
    and c: "\<And>model r. eval_cache s model = Some r \<Longrightarrow> r = current_evaluation so s model"
    by (auto simp: cache_valid_def)
  from record_inference_effect[of s m i d g l it tot]
  consider
      (same) "all_predictions ?s' = all_predictions s \<and> all_ground_truths ?s' = all_ground_truths s
             \<and> eval_cache ?s' = eval_cache s"
    | (written) pd gd where "all_predictions s m = Some pd \<and> all_ground_truths s m = Some gd
             \<and> all_predictions ?s' = (all_predictions s)(m \<mapsto> AList.update i (map format_pred d) pd)
             \<and> all_ground_truths ?s' = (all_ground_truths s)(m \<mapsto> AList.update i (map format_gt g) gd)
             \<and> eval_cache ?s' = (eval_cache s)(m := None)"
    | (err) "all_predictions s m \<noteq> None \<and> all_ground_truths s m = None"
    unfolding Let_def by blast
  then show ?thesis
  proof cases
    case same
    then show ?thesis
      using assms by (simp add: cache_valid_def current_evaluation_def)
  next
    case written
    then have w3: "all_predictions ?s' = (all_predictions s)(m \<mapsto> AList.update i (map format_pred d) pd)"
      and w4: "all_ground_truths ?s' = (all_ground_truths s)(m \<mapsto> AList.update i (map format_gt g) gd)"
      and w5: "eval_cache ?s' = (eval_cache s)(m := None)"
      by simp_all
    have "r = current_evaluation so ?s' model" if "eval_cache ?s' model = Some r" for model r
    proof -
      from that w5 have ne: "model \<noteq> m" and old: "eval_cache s model = Some r"
        by (auto split: if_splits)
      from c[OF old] ne w3 w4 show ?thesis
        by (simp add: current_evaluation_def model_dict_def)
    qed
    moreover have "dom (all_predictions ?s') \<subseteq> dom (all_ground_truths ?s')"
      using sub w3 w4 by auto
    ultimately show ?thesis by (simp add: cache_valid_def)
  next
    case err
    with sub show ?thesis by auto
  qed
qed

lemma cache_valid_get:
  assumes "cache_valid so s"
  shows "cache_valid so (snd (get_evaluation so s m))"
  using assms
  by (auto simp: cache_valid_def get_evaluation_def Let_def current_evaluation_def
           split: option.splits if_splits)

lemma cache_valid_run:
  "cache_valid so s \<Longrightarrow> cache_valid so (run_ops so ops s)"
  unfolding run_ops_def
proof (induction ops arbitrary: s)
  case Nil
  then show ?case by simp
next
  case (Cons x xs)
  have "cache_valid so (run_op so x s)"
    using Cons.prems by (cases x) (simp_all add: cache_valid_record cache_valid_get)
  then show ?case using Cons.IH by simp
qed

lemma get_evaluation_twice:
  assumes "get_evaluation so s m = (res, s')"
  shows "get_evaluation so s' m = (res, s')"
proof (cases "eval_cache s m")
  case None
  with assms show ?thesis
    by (cases "model_dict (all_predictions s) m = []")
       (auto simp: get_evaluation_def Let_def)
next
  case (Some r)
  then have e: "get_evaluation so s m = (Some r, s)" by (simp add: get_evaluation_def)
  with assms have "res = Some r" "s' = s" by simp_all
  with e show ?thesis by simp
qed

lemma get_evaluation_maps:
  "get_evaluation so s m = (res, s') \<Longrightarrow>
     all_predictions s' = all_predictions s \<and> all_ground_truths s' = all_ground_truths s"
  by (auto simp: get_evaluation_def Let_def split: option.splits if_splits)

lemma get_evaluation_current:
  assumes "cache_valid so s" "get_evaluation so s m = (Some r, s')"
  shows "r = current_evaluation so s m"
  using assms
  by (auto simp: cache_valid_def get_evaluation_def Let_def current_evaluation_def
           split: option.splits if_splits)

lemma c4_store_maps:
  "model_dict (all_predictions (run_ops remdups c4_ops (init_store 200 empty_heap))) ''yolov5''
     = [(''img1'', [cat_pred (9 / 10) box_a]), (''img2'', [cat_pred (8 / 10) box_b])]
   \<and> model_dict (all_ground_truths (run_ops remdups c4_ops (init_store 200 empty_heap))) ''yolov5''
     = [(''img1'', [cat_gt box_a 0]), (''img2'', [cat_gt box_c 0])]
   \<and> eval_cache (run_ops remdups c4_ops (init_store 200 empty_heap)) ''yolov5'' = None"
  by (simp add: run_ops_def c4_ops_def record_inference_def get_evaluation_def init_store_def
        Let_def model_dict_def format_pred_def format_gt_def cat_det_def cat_ann_def
        cat_pred_def cat_gt_def)

text \<open>
  C4. In a store reached from a new \<open>InferenceStore\<close> by any sequence of
  \<open>record_inference\<close> and \<open>get_evaluation\<close> calls, a result that \<open>get_evaluation\<close>
  returns for a model is the pipeline's output on the maps the store holds for that
  model at the time of the call (the call does not change them); and a second
  \<open>get_evaluation\<close> right after the first returns the same result and leaves the
  store as the first left it. A \<open>record_inference\<close> call with \<open>iteration = 1\<close> that
  returns normally leaves no cached result for its model.
\<close>

theorem C4_cache_never_stale:
  "(s = run_ops so ops (init_store mh heap) \<and> get_evaluation so s m = (Some r, s') \<longrightarrow>
      r = current_evaluation so s m \<and> current_evaluation so s' m = current_evaluation so s m)
   \<and> (get_evaluation so s m = (res, s') \<longrightarrow> get_evaluation so s' m = (res, s'))
   \<and> (fst (record_inference s m i d g l 1 tot) = Inr () \<longrightarrow>
        eval_cache (snd (record_inference s m i d g l 1 tot)) m = None)"
proof (intro conjI impI)
  assume a: "s = run_ops so ops (init_store mh heap) \<and> get_evaluation so s m = (Some r, s')"
  then have ge: "get_evaluation so s m = (Some r, s')" by (rule conjunct2)
  from a have s: "s = run_ops so ops (init_store mh heap)" by (rule conjunct1)
  have cv: "cache_valid so s" unfolding s by (simp add: cache_valid_run cache_valid_init)
  show "r = current_evaluation so s m" by (rule get_evaluation_current[OF cv ge])
  from get_evaluation_maps[OF ge]
  show "current_evaluation so s' m = current_evaluation so s m"
    by (simp add: current_evaluation_def)
next
  assume "get_evaluation so s m = (res, s')"
  then show "get_evaluation so s' m = (res, s')" by (rule get_evaluation_twice)
next
  assume "fst (record_inference s m i d g l 1 tot) = Inr ()"
  then show "eval_cache (snd (record_inference s m i d g l 1 tot)) m = None"
    by (rule record_inference_invalidates)
qed

theorem C4_cache_never_stale_witness:
  "fst (get_evaluation remdups (run_ops remdups c4_ops (init_store 200 empty_heap)) ''yolov5'')
     = Some (evaluate_detections remdups
               [(''img1'', [cat_pred (9 / 10) box_a]), (''img2'', [cat_pred (8 / 10) box_b])]
               [(''img1'', [cat_gt box_a 0]), (''img2'', [cat_gt box_c 0])]
               VOC_CLASSES (Some [1 / 2]))
   \<and> get_evaluation remdups
        (snd (get_evaluation remdups (run_ops remdups c4_ops (init_store 200 empty_heap)) ''yolov5''))
        ''yolov5''
     = get_evaluation remdups (run_ops remdups c4_ops (init_store 200 empty_heap)) ''yolov5''
   \<and> eval_cache (run_ops remdups (take 2 c4_ops) (init_store 200 empty_heap)) ''yolov5'' \<noteq> None
   \<and> eval_cache
        (snd (record_inference (run_ops remdups (take 2 c4_ops) (init_store 200 empty_heap))
                ''yolov5'' ''img2'' [cat_det (8 / 10) box_b] [cat_ann box_c] 15 1 1))
        ''yolov5'' = None"
proof -
  let ?s = "run_ops remdups c4_ops (init_store 200 empty_heap)"
  let ?X = "get_evaluation remdups ?s ''yolov5''"
  let ?s2 = "run_ops remdups (take 2 c4_ops) (init_store 200 empty_heap)"
  have "fst ?X \<noteq> None"
    by (simp add: get_evaluation_def c4_store_maps Let_def)
  then obtain r where r: "?X = (Some r, snd ?X)"
    by (cases ?X) auto
  from C4_cache_never_stale
         [of ?s remdups c4_ops 200 empty_heap "''yolov5''" r "snd ?X" "Some r"] r
  have 1: "r = current_evaluation remdups ?s ''yolov5''"
    and 2: "get_evaluation remdups (snd ?X) ''yolov5'' = (Some r, snd ?X)"
    by simp_all
  from 1 have a: "fst ?X = Some (current_evaluation remdups ?s ''yolov5'')"
    using r by (metis fst_conv)
  from 2 r have b: "get_evaluation remdups (snd ?X) ''yolov5'' = ?X" by simp
  have ok: "fst (record_inference ?s2 ''yolov5'' ''img2'' [cat_det (8 / 10) box_b] [cat_ann box_c]
                   15 1 1) = Inr ()"
    by (simp add: run_ops_def c4_ops_def record_inference_def get_evaluation_def init_store_def
          Let_def model_dict_def)
  have c: "eval_cache ?s2 ''yolov5'' \<noteq> None"
    by (simp add: run_ops_def c4_ops_def record_inference_def get_evaluation_def init_store_def
          Let_def model_dict_def)
  from C4_cache_never_stale
         [where s = ?s2 and m = "''yolov5''" and i = "''img2''"
            and d = "[cat_det (8 / 10) box_b]" and g = "[cat_ann box_c]" and l = 15 and tot = 1] ok
  have e: "eval_cache
        (snd (record_inference ?s2 ''yolov5'' ''img2'' [cat_det (8 / 10) box_b] [cat_ann box_c] 15 1 1))
        ''yolov5'' = None"
    by simp
  from a b c e show ?thesis
    by (simp add: current_evaluation_def c4_store_maps)
qed

subsection \<open>broadcast_event\<close>

lemma list_remove_append:
  "x \<notin> set pre \<Longrightarrow> list_remove x (pre @ x # xs) = Some (pre @ xs)"
  by (induction pre) auto

lemma remove_dead_filter:
  "distinct (pre @ xs) \<Longrightarrow>
     remove_dead (filter P xs) (pre @ xs) = (Inr (), pre @ filter (\<lambda>q. \<not> P q) xs)"
proof (induction xs arbitrary: pre)
  case Nil
  then show ?case by simp
next
  case (Cons x xs)
  from Cons.prems have d: "distinct ((pre @ [x]) @ xs)" and nin: "x \<notin> set pre" and d': "distinct (pre @ xs)"
    by auto
  show ?case
  proof (cases "P x")
    case True
    then show ?thesis
      using Cons.IH[OF d'] nin by (simp add: list_remove_append)
  next
    case False
    then show ?thesis
      using Cons.IH[OF d] by simp
  qed
qed

lemma broadcast_fold:
  "distinct subs \<Longrightarrow>
     fold (broadcast_step ev) subs (h, dead) =
       (\<lambda>q. if q \<in> set subs \<and> \<not> queue_full (h q)
             then (h q)\<lparr>q_items := q_items (h q) @ [ev]\<rparr> else h q,
        dead @ filter (\<lambda>q. queue_full (h q)) subs)"
proof (induction subs arbitrary: h dead)
  case Nil
  then show ?case by simp
next
  case (Cons q subs)
  then have nin: "q \<notin> set subs" and d: "distinct subs" by simp_all
  show ?case
  proof (cases "queue_full (h q)")
    case True
    then have "broadcast_step ev q (h, dead) = (h, dead @ [q])"
      by (simp add: broadcast_step_def put_nowait_def)
    then show ?thesis
      using Cons.IH[OF d, of h "dead @ [q]"] True nin by (auto simp: fun_eq_iff)
  next
    case False
    let ?h = "h(q := (h q)\<lparr>q_items := q_items (h q) @ [ev]\<rparr>)"
    from False have st: "broadcast_step ev q (h, dead) = (?h, dead)"
      by (simp add: broadcast_step_def put_nowait_def)
    have f: "filter (\<lambda>x. queue_full (?h x)) subs = filter (\<lambda>x. queue_full (h x)) subs"
      using nin by (intro filter_cong) auto
    have g: "(\<lambda>x. if x \<in> set subs \<and> \<not> queue_full (?h x)
                  then (?h x)\<lparr>q_items := q_items (?h x) @ [ev]\<rparr> else ?h x) =
             (\<lambda>x. if x \<in> set (q # subs) \<and> \<not> queue_full (h x)
                  then (h x)\<lparr>q_items := q_items (h x) @ [ev]\<rparr> else h x)"
      using False nin by (auto simp: fun_eq_iff)
    have "fold (broadcast_step ev) (q # subs) (h, dead) = fold (broadcast_step ev) subs (?h, dead)"
      by (simp add: st)
    also have "\<dots> =
        (\<lambda>x. if x \<in> set subs \<and> \<not> queue_full (?h x)
              then (?h x)\<lparr>q_items := q_items (?h x) @ [ev]\<rparr> else ?h x,
         dead @ filter (\<lambda>x. queue_full (?h x)) subs)"
      by (rule Cons.IH[OF d])
    also have "\<dots> =
        (\<lambda>x. if x \<in> set (q # subs) \<and> \<not> queue_full (h x)
              then (h x)\<lparr>q_items := q_items (h x) @ [ev]\<rparr> else h x,
         dead @ filter (\<lambda>x. queue_full (h x)) (q # subs))"
      unfolding g f using False by simp
    finally show ?thesis .
  qed
qed

text \<open>
  C9. \<open>broadcast_event\<close> has no \<open>await\<close>: it is a function from the store and the
  event to the next store. With the subscriber list free of duplicates (each
  subscription appends a new queue), it returns normally, appends the event to the
  queue of every subscriber that is not full and to no other queue, and leaves in the
  subscriber list exactly the subscribers whose queue was not full, in their order.
\<close>

theorem C9_broadcast_drops_full_subscribers:
  "distinct (subscribers s) \<longrightarrow>
     fst (broadcast_event s ev) = Inr ()
     \<and> subscribers (snd (broadcast_event s ev)) =
         filter (\<lambda>q. \<not> queue_full (queues s q)) (subscribers s)
     \<and> (\<forall>q. queues (snd (broadcast_event s ev)) q =
              (if q \<in> set (subscribers s) \<and> \<not> queue_full (queues s q)
               then (queues s q)\<lparr>q_items := q_items (queues s q) @ [ev]\<rparr>
               else queues s q))"
proof
  assume d: "distinct (subscribers s)"
  have r: "remove_dead (filter (\<lambda>q. queue_full (queues s q)) (subscribers s)) (subscribers s)
             = (Inr (), filter (\<lambda>q. \<not> queue_full (queues s q)) (subscribers s))"
    using remove_dead_filter[of "[]" "subscribers s" "\<lambda>q. queue_full (queues s q)"] d by simp
  show "fst (broadcast_event s ev) = Inr ()
     \<and> subscribers (snd (broadcast_event s ev)) =
         filter (\<lambda>q. \<not> queue_full (queues s q)) (subscribers s)
     \<and> (\<forall>q. queues (snd (broadcast_event s ev)) q =
              (if q \<in> set (subscribers s) \<and> \<not> queue_full (queues s q)
               then (queues s q)\<lparr>q_items := q_items (queues s q) @ [ev]\<rparr>
               else queues s q))"
    by (simp add: broadcast_event_def Let_def broadcast_fold[OF d] r)
qed

theorem C9_broadcast_drops_full_subscribers_witness:
  "distinct (subscribers c9_store)
   \<and> queue_full (queues c9_store 0) \<and> \<not> queue_full (queues c9_store 1)
   \<and> fst (broadcast_event c9_store ''event'') = Inr ()
   \<and> subscribers (snd (broadcast_event c9_store ''event'')) = [1]
   \<and> q_items (queues (snd (broadcast_event c9_store ''event'')) 1) = [''event'']
   \<and> q_items (queues (snd (broadcast_event c9_store ''event'')) 0) = replicate 100 ''old''"
proof -
  have d: "distinct (subscribers c9_store)"
    by (simp add: c9_store_def)
  have s: "subscribers c9_store = [0, 1]" "queues c9_store = c9_heap"
    by (simp_all add: c9_store_def init_store_def)
  have f: "queue_full (c9_heap 0)" "\<not> queue_full (c9_heap 1)"
    by (simp_all add: c9_heap_def queue_full_def)
  from C9_broadcast_drops_full_subscribers[of c9_store "''event''"] d
  have r: "fst (broadcast_event c9_store ''event'') = Inr ()"
    and sub: "subscribers (snd (broadcast_event c9_store ''event'')) =
         filter (\<lambda>q. \<not> queue_full (queues c9_store q)) (subscribers c9_store)"
    and q: "\<And>q. queues (snd (broadcast_event c9_store ''event'')) q =
              (if q \<in> set (subscribers c9_store) \<and> \<not> queue_full (queues c9_store q)
               then (queues c9_store q)\<lparr>q_items := q_items (queues c9_store q) @ [''event'']\<rparr>
               else queues c9_store q)"
    by simp_all
  have sub': "subscribers (snd (broadcast_event c9_store ''event'')) = [1]"
    unfolding sub s using f by simp
  have q1: "q_items (queues (snd (broadcast_event c9_store ''event'')) 1) = [''event'']"
    unfolding q s using f by (simp add: c9_heap_def)
  have q0: "q_items (queues (snd (broadcast_event c9_store ''event'')) 0) = replicate 100 ''old''"
    unfolding q s using f by (simp add: c9_heap_def)
  show ?thesis
    using d f r sub' q1 q0 by (simp add: s)
qed

section \<open>The single-image scenario\<close>

lemma set_order_single:
  assumes "is_set_order so"
  shows "so [k, k] = [k]"
proof -
  from assms have d: "distinct (so [k, k])" and s: "set (so [k, k]) = {k}"
    by (auto simp: is_set_order_def)
  from d s have "length (so [k, k]) = 1"
    using distinct_card[OF d] by simp
  then obtain x where "so [k, k] = [x]"
    by (cases "so [k, k]") auto
  with s show ?thesis by simp
qed

lemma lower_cat: "lower ''cat'' = ''cat''"
  by (simp add: lower_def)

lemma one_cat_gather:
  assumes "so [img, img] = [img]"
  shows "gather_class so (1 / 2) [(img, [cat_pred (9 / 10) box_a])] [(img, [cat_gt box_a 0])] c =
           (if lower c = ''cat'' then ([(9 / 10, True)], 1) else ([], 0))"
  using assms
  by (simp add: gather_class_def image_ids_def gather_image_def dict_get_def sort_desc_def
        cat_pred_def cat_gt_def lower_cat match_predictions_to_gt_def match_loop_def
        match_step_def best_gt_def best_gt_step_def compute_iou_def box_a_def Let_def)

lemma one_cat_agg:
  "agg_image [(img, [cat_pred (9 / 10) box_a])] [(img, [cat_gt box_a 0])] c img (tp, fp, n) =
           (if lower c = ''cat'' then (tp + 1, fp, n + 1) else (tp, fp, n))"
  by (simp add: agg_image_def dict_get_def
        cat_pred_def cat_gt_def lower_cat match_predictions_to_gt_def match_loop_def
        match_step_def best_gt_def best_gt_step_def compute_iou_def box_a_def Let_def)

lemma ap_single: "compute_ap [1] [1] = 1"
  by (simp add: compute_ap_def envelope_def Let_def)

lemma one_cat_eval_class:
  assumes "so [img, img] = [img]"
  shows "fst (eval_class so (1 / 2) [(img, [cat_pred (9 / 10) box_a])] [(img, [cat_gt box_a 0])] c) =
           (if lower c = ''cat'' then 1 else 0)"
  using assms
  by (simp add: eval_class_def one_cat_gather Let_def sort_desc_def float_eps_def ap_single)

lemma lower_VOC:
  "map (\<lambda>c. lower c = ''cat'') VOC_CLASSES =
     [False, False, True, False, False, False, False, False, False, False,
      False, False, False, False, False, False, False, False, False, False]"
  by (simp add: VOC_CLASSES_def lower_def)

lemma one_cat_agg_counts:
  assumes "so [img, img] = [img]"
  shows "agg_counts so [(img, [cat_pred (9 / 10) box_a])] [(img, [cat_gt box_a 0])] VOC_CLASSES = (1, 0, 1)"
  using assms lower_VOC
  by (simp add: agg_counts_def image_ids_def one_cat_agg VOC_CLASSES_def)

lemma one_cat_per_class_ap:
  assumes "so [img, img] = [img]"
  shows "map_of (per_class_ap (evaluate_detections so [(img, [cat_pred (9 / 10) box_a])]
            [(img, [cat_gt box_a 0])] VOC_CLASSES (Some [1 / 2]))) ''cat'' = Some 1"
proof -
  have c: "''cat'' \<in> set VOC_CLASSES" by (simp add: VOC_CLASSES_def)
  show ?thesis
    using assms c
    by (simp add: evaluate_detections_def Let_def rbt_lookup eval_threshold_def fold_class_step
          fold_update_lookup one_cat_eval_class lower_cat)
qed

lemma py_round_one: "py_round 1 4 = 1"
  by (simp add: py_round_def Let_def)

lemma one_cat_aggregate:
  assumes "so [img, img] = [img]"
  shows "aggregate_precision (evaluate_detections so [(img, [cat_pred (9 / 10) box_a])]
            [(img, [cat_gt box_a 0])] VOC_CLASSES (Some [1 / 2])) = 1
       \<and> aggregate_recall (evaluate_detections so [(img, [cat_pred (9 / 10) box_a])]
            [(img, [cat_gt box_a 0])] VOC_CLASSES (Some [1 / 2])) = 1"
  using assms
  by (simp add: evaluate_detections_def Let_def one_cat_agg_counts py_round_one)

lemma c8_store:
  assumes "model = ''yolov5'' \<or> model = ''detr''"
  shows "fst (record_inference (init_store mh heap) model img [c8_detection] [c8_ground_truth] lat 1 tot) = Inr ()
       \<and> eval_cache (snd (record_inference (init_store mh heap) model img [c8_detection] [c8_ground_truth] lat 1 tot)) model = None
       \<and> model_dict (all_predictions (snd (record_inference (init_store mh heap) model img [c8_detection] [c8_ground_truth] lat 1 tot))) model
           = [(img, [cat_pred (9 / 10) box_a])]
       \<and> model_dict (all_ground_truths (snd (record_inference (init_store mh heap) model img [c8_detection] [c8_ground_truth] lat 1 tot))) model
           = [(img, [cat_gt box_a 0])]"
  using assms
  by (auto simp: record_inference_def init_store_def Let_def model_dict_def format_pred_def
        format_gt_def c8_detection_def c8_ground_truth_def cat_pred_def cat_gt_def box_a_def)

text \<open>
  C8. A new store into which one image is recorded (first iteration) with the single
  ground truth \<open>{class: "cat", bbox: [0, 0, 10, 10]}\<close> and the single detection
  \<open>{class: "cat", confidence: 0.9, bbox: [0, 0, 10, 10]}\<close>: \<open>get_evaluation\<close>
  returns a result, computed at IoU threshold 0.5, with \<open>per_class_ap["cat"] = 1\<close>,
  \<open>aggregate_precision = 1\<close> and \<open>aggregate_recall = 1\<close>, for either model, every
  image id and every iteration order of sets.
\<close>

theorem C8_single_cat_scenario:
  "is_set_order so \<and> (model = ''yolov5'' \<or> model = ''detr'')
   \<and> s = snd (record_inference (init_store mh heap) model img [c8_detection] [c8_ground_truth] lat 1 tot)
   \<longrightarrow> (\<exists>ev s'. get_evaluation so s model = (Some ev, s')
          \<and> map_of (per_class_ap ev) ''cat'' = Some 1
          \<and> aggregate_precision ev = 1
          \<and> aggregate_recall ev = 1
          \<and> iou_thresholds_used ev = [1 / 2])"
proof
  assume a: "is_set_order so \<and> (model = ''yolov5'' \<or> model = ''detr'')
   \<and> s = snd (record_inference (init_store mh heap) model img [c8_detection] [c8_ground_truth] lat 1 tot)"
  then have so: "so [img, img] = [img]" by (simp add: set_order_single)
  from a have m: "model = ''yolov5'' \<or> model = ''detr''" by simp
  from a have s: "s = snd (record_inference (init_store mh heap) model img [c8_detection] [c8_ground_truth] lat 1 tot)"
    by simp
  let ?ev = "evaluate_detections so [(img, [cat_pred (9 / 10) box_a])] [(img, [cat_gt box_a 0])]
               VOC_CLASSES (Some [1 / 2])"
  from c8_store[OF m, of mh heap img lat tot]
  have "get_evaluation so s model = (Some ?ev, s\<lparr>eval_cache := (eval_cache s)(model \<mapsto> ?ev)\<rparr>)"
    unfolding s by (simp add: get_evaluation_def Let_def)
  moreover have "iou_thresholds_used ?ev = [1 / 2]"
    by (simp add: evaluate_detections_def Let_def)
  ultimately show "\<exists>ev s'. get_evaluation so s model = (Some ev, s')
          \<and> map_of (per_class_ap ev) ''cat'' = Some 1
          \<and> aggregate_precision ev = 1
          \<and> aggregate_recall ev = 1
          \<and> iou_thresholds_used ev = [1 / 2]"
    using one_cat_per_class_ap[of so img] one_cat_aggregate[of so img] so by blast
qed

theorem C8_single_cat_scenario_witness:
  "map_of (per_class_ap (the (fst (get_evaluation remdups
      (snd (record_inference (init_store 200 empty_heap) ''yolov5'' ''img'' [c8_detection] [c8_ground_truth] 12 1 1))
      ''yolov5'')))) ''cat'' = Some 1
   \<and> aggregate_precision (the (fst (get_evaluation remdups
      (snd (record_inference (init_store 200 empty_heap) ''yolov5'' ''img'' [c8_detection] [c8_ground_truth] 12 1 1))
      ''yolov5''))) = 1
   \<and> aggregate_recall (the (fst (get_evaluation remdups
      (snd (record_inference (init_store 200 empty_heap) ''yolov5'' ''img'' [c8_detection] [c8_ground_truth] 12 1 1))
      ''yolov5''))) = 1"
proof -
  have h: "is_set_order remdups \<and> (''yolov5'' = ''yolov5'' \<or> ''yolov5'' = ''detr'')
      \<and> snd (record_inference (init_store 200 empty_heap) ''yolov5'' ''img'' [c8_detection] [c8_ground_truth] 12 1 1)
        = snd (record_inference (init_store 200 empty_heap) ''yolov5'' ''img'' [c8_detection] [c8_ground_truth] 12 1 1)"
    by (simp add: is_set_order_def)
  from C8_single_cat_scenario
         [where so = remdups and model = "''yolov5''" and mh = 200 and heap = empty_heap
            and img = "''img''" and lat = 12 and tot = 1
            and s = "snd (record_inference (init_store 200 empty_heap) ''yolov5'' ''img''
                            [c8_detection] [c8_ground_truth] 12 1 1)"] h
  obtain ev s' where
    "get_evaluation remdups
      (snd (record_inference (init_store 200 empty_heap) ''yolov5'' ''img'' [c8_detection] [c8_ground_truth] 12 1 1))
      ''yolov5'' = (Some ev, s')"
    "map_of (per_class_ap ev) ''cat'' = Some 1" "aggregate_precision ev = 1" "aggregate_recall ev = 1"
    by blast
  then show ?thesis by simp
qed

section \<open>Properties of the PR curve\<close>

lemma match_trace_range:
  "Some g \<in> set (match_trace thr gts preds st) \<Longrightarrow> 0 \<le> g \<and> g < int (length gts)"
proof (induction preds arbitrary: st)
  case Nil
  then show ?case by simp
next
  case (Cons p ps)
  obtain iou idx where b: "best_gt (bbox p) gts (fst st) = (iou, idx)"
    by (cases "best_gt (bbox p) gts (fst st)")
  from Cons.prems b
  consider "g = idx \<and> 0 \<le> idx" | "Some g \<in> set (match_trace thr gts ps (match_step thr gts p st))"
    by (auto split: if_splits)
  then show ?case
  proof cases
    case 1
    then show ?thesis using best_gt_idx[OF b] by simp
  next
    case 2
    then show ?thesis by (rule Cons.IH)
  qed
qed

lemma tp_flags_length_no_difficult:
  assumes "\<forall>g \<in> set gts. difficult g = 0"
  shows "length (fst (match_predictions_to_gt preds gts thr)) = length preds"
proof -
  let ?t = "match_trace thr gts preds ({}, [])"
  have "\<not> difficult_match gts m" if "m \<in> set ?t" for m
  proof (cases m)
    case None
    then show ?thesis by (simp add: difficult_match_def)
  next
    case (Some g)
    with that match_trace_range[of g thr gts preds "({}, [])"]
    have "0 \<le> g \<and> g < int (length gts)" by simp
    then have "nat g < length gts" by linarith
    then have "gts ! nat g \<in> set gts" by (rule nth_mem)
    with assms Some show ?thesis by (simp add: difficult_match_def)
  qed
  then have "filter (\<lambda>m. \<not> difficult_match gts m) ?t = ?t"
    by (simp add: filter_id_conv)
  then show ?thesis
    by (simp add: match_predictions_to_gt_def Let_def match_loop_flags match_trace_length)
qed

lemma length_cumsum_from: "length (cumsum_from a xs) = length xs"
  by (induction xs arbitrary: a) simp_all

lemma cumsum_from_Nil: "cumsum_from a xs = [] \<longleftrightarrow> xs = []"
  by (cases xs) simp_all

lemma sort_key_Nil: "sort_key f xs = [] \<longleftrightarrow> xs = []"
  by (metis length_sort length_0_conv)

lemma range_step_one: "range_step n (Suc 0) = [0..<n]"
  by (simp add: range_step_def)

lemma eval_class_curve_length:
  assumes "snd (gather_class so thr P G c) \<noteq> 0"
  shows "length (snd (eval_class so thr P G c)) =
           (let n = length (fst (gather_class so thr P G c))
            in length (range_step n (max 1 (n div 50))) + (if n > 0 then 1 else 0))"
  using assms
  by (simp add: eval_class_def Let_def sort_desc_def length_cumsum_from cumsum_from_Nil
        sort_key_Nil)


lemma n_gt_count:
  "snd (match_predictions_to_gt preds gts thr) = length (filter (\<lambda>g. difficult g = 0) gts)"
  by (simp add: match_predictions_to_gt_def Let_def)

lemma update_fresh:
  "k \<notin> fst ` set al \<Longrightarrow> AList.update k v al = al @ [(k, v)]"
  by (induction al) auto

lemma fold_update_fst:
  "distinct ks \<Longrightarrow> set ks \<inter> fst ` set al = {} \<Longrightarrow>
     map fst (fold (\<lambda>k. AList.update k (f k)) ks al) = map fst al @ ks"
proof (induction ks arbitrary: al)
  case Nil
  then show ?case by simp
next
  case (Cons k ks)
  from Cons.prems have fresh: "k \<notin> fst ` set al" by auto
  have u: "AList.update k (f k) al = al @ [(k, f k)]" by (rule update_fresh[OF fresh])
  from Cons.prems have "distinct ks" "set ks \<inter> fst ` set (al @ [(k, f k)]) = {}" by auto
  from Cons.IH[OF this] show ?case by (simp add: u)
qed

lemma pooled_points_length:
  assumes "distinct cs"
  shows "length (concat (map snd (pr_curves (evaluate_detections so P G cs (Some [1 / 2]))))) =
           sum_list (map (\<lambda>c. length (snd (eval_class so (1 / 2) P G c))) cs)"
proof -
  let ?f = "\<lambda>c. snd (eval_class so (1 / 2) P G c)"
  let ?al = "fold (\<lambda>c. AList.update c (?f c)) cs []"
  have p: "pr_curves (evaluate_detections so P G cs (Some [1 / 2])) = ?al"
    by (simp add: evaluate_detections_def Let_def rbt_lookup eval_threshold_def fold_class_step)
  have k: "map fst ?al = cs" using fold_update_fst[OF assms, of "[]" ?f] by simp
  have "map snd ?al = map ?f cs" using fold_update_values[of ?f cs] k by simp
  then show ?thesis
    unfolding p by (simp add: length_concat comp_def)
qed

lemma get_pr_curve_length:
  assumes "get_evaluation so s m = (Some ev, s')"
  shows "length (fst (get_pr_curve so s m)) =
           (let n = length (concat (map snd (pr_curves ev)))
            in length (range_step n (max 1 (n div 50))))"
  using assms
  by (simp add: get_pr_curve_def Let_def slice_step_def range_step_def)

lemma c7_store_maps:
  "model_dict (all_predictions c7_store) ''yolov5'' = [(''img'', replicate 98 (cat_pred (9 / 10) box_a))]
   \<and> model_dict (all_ground_truths c7_store) ''yolov5'' = [(''img'', [cat_gt box_a 0])]
   \<and> eval_cache c7_store ''yolov5'' = None"
  by (simp add: c7_store_def record_inference_def init_store_def Let_def model_dict_def
        format_pred_def format_gt_def c8_detection_def c8_ground_truth_def cat_pred_def
        cat_gt_def box_a_def)

lemma c7_gather:
  "length (fst (gather_class remdups (1 / 2) [(''img'', replicate 98 (cat_pred (9 / 10) box_a))]
                  [(''img'', [cat_gt box_a 0])] c)) = (if lower c = ''cat'' then 98 else 0)
   \<and> snd (gather_class remdups (1 / 2) [(''img'', replicate 98 (cat_pred (9 / 10) box_a))]
                  [(''img'', [cat_gt box_a 0])] c) = (if lower c = ''cat'' then 1 else 0)"
  by (simp add: gather_class_def image_ids_def gather_image_def dict_get_def sort_desc_def
        Let_def n_gt_count tp_flags_length_no_difficult cat_pred_def cat_gt_def lower_cat)

lemma c7_curve_length:
  "length (snd (eval_class remdups (1 / 2) [(''img'', replicate 98 (cat_pred (9 / 10) box_a))]
                  [(''img'', [cat_gt box_a 0])] c)) = (if lower c = ''cat'' then 99 else 0)"
proof (cases "lower c = ''cat''")
  case True
  then show ?thesis
    by (simp add: eval_class_curve_length c7_gather Let_def range_step_one)
next
  case False
  then show ?thesis
    by (simp add: eval_class_no_gt c7_gather)
qed

lemma distinct_VOC: "distinct VOC_CLASSES"
  by (simp add: VOC_CLASSES_def)

lemma ceil_div_step:
  fixes n k :: nat
  assumes "0 < k"
  shows "(n + k) div k = (n + k - 1) div k + (if n mod k = 0 then 1 else 0)"
proof -
  define q where "q = n div k"
  define r where "r = n mod k"
  have n: "n = r + q * k" by (simp add: q_def r_def)
  have r: "r < k" using assms by (simp add: r_def)
  have k: "k \<noteq> 0" using assms by simp
  have m: "n mod k = r" by (simp add: r_def)
  have 1: "(n + k) div k = q + 1"
  proof -
    have "n + k = r + (q + 1) * k" by (simp add: n)
    then show ?thesis using r k by (simp del: mult_Suc)
  qed
  show ?thesis
  proof (cases "r = 0")
    case True
    have e: "n + k - 1 = (k - 1) + q * k" using n True assms by simp
    have "((k - 1) + q * k) div k = q + (k - 1) div k" by (rule div_mult_self1[OF k])
    also have "(k - 1) div k = 0" using assms by simp
    finally have "(n + k - 1) div k = q" unfolding e by simp
    with 1 m True show ?thesis by simp
  next
    case False
    have e: "n + k - 1 = (r - 1) + (q + 1) * k" using n False by simp
    have "((r - 1) + (q + 1) * k) div k = (q + 1) + (r - 1) div k" by (rule div_mult_self1[OF k])
    also have "(r - 1) div k = 0" using r by simp
    finally have "(n + k - 1) div k = q + 1" unfolding e by simp
    with 1 m False show ?thesis by simp
  qed
qed

lemma range_step_length:
  assumes "0 < k"
  shows "length (range_step n k) = (n + k - 1) div k"
proof (induction n)
  case 0
  then show ?case using assms by (simp add: range_step_def)
next
  case (Suc n)
  have "length (range_step (Suc n) k) = length (range_step n k) + (if n mod k = 0 then 1 else 0)"
    by (simp add: range_step_def)
  also have "\<dots> = (n + k) div k"
    unfolding Suc.IH using ceil_div_step[OF assms, of n] by simp
  finally show ?case by simp
qed

lemma subsample_bound:
  "length (range_step n (max 1 (n div 50))) \<le> 99"
proof (cases "n < 50")
  case True
  then show ?thesis by (simp add: range_step_one)
next
  case False
  define k where "k = n div 50"
  have k1: "1 \<le> k" using False by (simp add: k_def)
  have "n < 50 * k + 50" by (simp add: k_def)
  with k1 have "n + k - 1 < 100 * k" by arith
  then have "(n + k - 1) div k < 100"
    using k1 by (simp add: less_mult_imp_div_less)
  moreover have "max 1 (n div 50) = k" using k1 by (simp add: k_def)
  ultimately show ?thesis
    using range_step_length[of k n] k1 by simp
qed

text \<open>
  What holds of \<open>get_pr_curve\<close> for every store: the points are in non-decreasing
  order of recall, and there are at most 99 of them.
\<close>

lemma get_pr_curve_length_le:
  "length (fst (get_pr_curve so s m)) \<le> 99"
proof (cases "get_evaluation so s m")
  case (Pair res s')
  show ?thesis
  proof (cases res)
    case None
    with Pair show ?thesis by (simp add: get_pr_curve_def)
  next
    case (Some ev)
    with Pair show ?thesis
      using subsample_bound[of "length (concat (map snd (pr_curves ev)))"]
      by (simp add: get_pr_curve_length Let_def)
  qed
qed

lemma py_round_mono:
  assumes "x \<le> y"
  shows "py_round x n \<le> py_round y n"
proof -
  define a where "a = x * 10 ^ n"
  define b where "b = y * 10 ^ n"
  define r :: "rat \<Rightarrow> int" where
    "r = (\<lambda>v. if v - of_int \<lfloor>v\<rfloor> < 1 / 2 then \<lfloor>v\<rfloor>
               else if v - of_int \<lfloor>v\<rfloor> > 1 / 2 then \<lfloor>v\<rfloor> + 1
               else if even \<lfloor>v\<rfloor> then \<lfloor>v\<rfloor> else \<lfloor>v\<rfloor> + 1)"
  have ab: "a \<le> b" using assms by (simp add: a_def b_def)
  have fl: "\<lfloor>a\<rfloor> \<le> \<lfloor>b\<rfloor>" using ab by (rule floor_mono)
  have lo: "\<lfloor>v\<rfloor> \<le> r v" and hi: "r v \<le> \<lfloor>v\<rfloor> + 1" for v
    by (simp_all add: r_def)
  have "r a \<le> r b"
  proof (cases "\<lfloor>a\<rfloor> = \<lfloor>b\<rfloor>")
    case True
    then have "a - of_int \<lfloor>a\<rfloor> \<le> b - of_int \<lfloor>b\<rfloor>" using ab by simp
    with True show ?thesis by (auto simp: r_def)
  next
    case False
    with fl have "\<lfloor>a\<rfloor> + 1 \<le> \<lfloor>b\<rfloor>" by simp
    with hi[of a] lo[of b] show ?thesis by linarith
  qed
  then have "(of_int (r a) :: rat) / 10 ^ n \<le> of_int (r b) / 10 ^ n"
    by (simp add: divide_right_mono)
  then show ?thesis
    by (simp add: py_round_def Let_def a_def b_def r_def)
qed

lemma sorted_slice_step:
  fixes xs :: "rat list"
  assumes "sorted xs"
  shows "sorted (slice_step xs k)"
proof -
  let ?is = "filter (\<lambda>i. i mod k = 0) [0..<length xs]"
  have "sorted_wrt (<) ?is" by (intro sorted_wrt_filter) simp
  then have "sorted_wrt (\<lambda>i j. xs ! i \<le> xs ! j) ?is"
  proof (rule sorted_wrt_mono_rel[rotated])
    fix i j assume "i \<in> set ?is" "j \<in> set ?is" "i < j"
    then show "xs ! i \<le> xs ! j"
      using assms by (auto intro: sorted_nth_mono)
  qed
  then show ?thesis
    by (simp add: slice_step_def range_step_def sorted_map)
qed

lemma slice_step_map:
  "map f (slice_step xs k) = slice_step (map f xs) k"
  by (simp add: slice_step_def range_step_def)

lemma get_pr_curve_sorted:
  "sorted (map pp_recall (fst (get_pr_curve so s m)))"
proof (cases "get_evaluation so s m")
  case (Pair res s')
  show ?thesis
  proof (cases res)
    case None
    with Pair show ?thesis by (simp add: get_pr_curve_def)
  next
    case (Some ev)
    define pts where "pts = sort_key cp_recall (concat (map snd (pr_curves ev)))"
    define k where "k = max 1 (length pts div 50)"
    have "sorted (map cp_recall pts)" by (simp add: pts_def)
    then have "sorted (slice_step (map cp_recall pts) k)" by (rule sorted_slice_step)
    then have "sorted (map cp_recall (slice_step pts k))" by (simp add: slice_step_map)
    then have "sorted_wrt (\<lambda>p q. cp_recall p \<le> cp_recall q) (slice_step pts k)"
      by (simp add: sorted_map)
    then have "sorted_wrt (\<lambda>p q. py_round (cp_recall p) 4 \<le> py_round (cp_recall q) 4) (slice_step pts k)"
      by (rule sorted_wrt_mono_rel[rotated]) (rule py_round_mono)
    then have "sorted (map (\<lambda>p. py_round (cp_recall p) 4) (slice_step pts k))"
      by (simp add: sorted_map)
    with Pair Some show ?thesis
      by (simp add: get_pr_curve_def Let_def pts_def k_def comp_def)
  qed
qed

text \<open>
  C7. The claim: the list that \<open>get_pr_curve\<close> returns is capped at about 50 points
  for every size of the pooled point set. The code at a concrete store: one class with
  98 predictions gives a class curve of 99 points (step \<open>max(1, 98 // 50) = 1\<close>, plus
  the last point), under the comment \<open>Max 50 points\<close>; the pooled set has 99 points,
  the step of \<open>get_pr_curve\<close> is \<open>max(1, 99 // 50) = 1\<close>, and all 99 points are
  returned.
\<close>

theorem C7_pr_curve_of_99_points:
  "length (fst (get_pr_curve remdups c7_store ''yolov5'')) = 99
   \<and> length (snd (eval_class remdups (1 / 2)
                    (model_dict (all_predictions c7_store) ''yolov5'')
                    (model_dict (all_ground_truths c7_store) ''yolov5'') ''cat'')) = 99"
proof -
  let ?P = "[(''img'', replicate 98 (cat_pred (9 / 10) box_a))]"
  let ?G = "[(''img'', [cat_gt box_a 0])]"
  let ?ev = "evaluate_detections remdups ?P ?G VOC_CLASSES (Some [1 / 2])"
  have g: "get_evaluation remdups c7_store ''yolov5'' =
             (Some ?ev, c7_store\<lparr>eval_cache := (eval_cache c7_store)(''yolov5'' \<mapsto> ?ev)\<rparr>)"
    using c7_store_maps by (simp add: get_evaluation_def Let_def)
  have "length (concat (map snd (pr_curves ?ev))) =
          sum_list (map (\<lambda>c. if lower c = ''cat'' then 99 else 0) VOC_CLASSES)"
    by (simp add: pooled_points_length[OF distinct_VOC] c7_curve_length)
  also have "\<dots> = 99"
    using lower_VOC by (simp add: VOC_CLASSES_def)
  finally have n: "length (concat (map snd (pr_curves ?ev))) = 99" .
  have 1: "length (fst (get_pr_curve remdups c7_store ''yolov5'')) = 99"
    unfolding get_pr_curve_length[OF g] n Let_def
    by (simp add: range_step_one)
  have 2: "length (snd (eval_class remdups (1 / 2)
                    (model_dict (all_predictions c7_store) ''yolov5'')
                    (model_dict (all_ground_truths c7_store) ''yolov5'') ''cat'')) = 99"
    using c7_store_maps by (simp add: c7_curve_length lower_cat)
  from 1 2 show ?thesis by simp
qed

end
